theory Spec2Isabelle
  imports Complex_Main "HOL-Library.AList"
begin

section \<open>Values and the Python operations the bridge applies to them\<close>

text \<open>
  Every payload the bridge handles is a decoded JSON document held in Python objects:
  \<open>None\<close>, \<open>bool\<close>, \<open>int\<close>, \<open>float\<close>, \<open>str\<close>, \<open>list\<close>
  and \<open>dict\<close> with string keys. A \<open>dict\<close> is an association list in insertion
  order; a key is looked up with \<open>map_of\<close> and stored with \<open>AList.update\<close>, which
  overwrites in place or appends, as a Python \<open>dict\<close> does. A \<open>str\<close> is a list of
  characters, one \<open>char\<close> for each code point (code points below 256).
\<close>

datatype json =
    JNull
  | JBool bool
  | JInt int
  | JFloat real
  | JStr string
  | JList "json list"
  | JObj "(string \<times> json) list"

text \<open>The exceptions that the operations below can raise.\<close>

datatype pyerr = TypeError | KeyError | IndexError | AttributeError | JSONDecodeError

definition pbind :: "pyerr + 'a \<Rightarrow> ('a \<Rightarrow> pyerr + 'b) \<Rightarrow> pyerr + 'b" where
  "pbind m f = (case m of Inl e \<Rightarrow> Inl e | Inr x \<Rightarrow> f x)"

text \<open>Truth value of an object in a condition (\<open>if x:\<close>).\<close>

fun truthy :: "json \<Rightarrow> bool" where
  "truthy JNull = False"
| "truthy (JBool b) = b"
| "truthy (JInt i) = (i \<noteq> 0)"
| "truthy (JFloat x) = (x \<noteq> 0)"
| "truthy (JStr s) = (s \<noteq> [])"
| "truthy (JList xs) = (xs \<noteq> [])"
| "truthy (JObj kvs) = (kvs \<noteq> [])"

text \<open>\<open>isinstance(x, dict)\<close>, \<open>isinstance(x, str)\<close>, \<open>isinstance(x, list)\<close>.\<close>

fun is_dict :: "json \<Rightarrow> bool" where
  "is_dict (JObj kvs) = True"
| "is_dict _ = False"

fun is_str :: "json \<Rightarrow> bool" where
  "is_str (JStr s) = True"
| "is_str _ = False"

fun is_list :: "json \<Rightarrow> bool" where
  "is_list (JList xs) = True"
| "is_list _ = False"

text \<open>Lists and dicts cannot be dictionary keys: \<open>d.get(x)\<close> raises TypeError on them.\<close>

fun hashable :: "json \<Rightarrow> bool" where
  "hashable (JList xs) = False"
| "hashable (JObj kvs) = False"
| "hashable _ = True"

text \<open>\<open>x.get(k, d)\<close>: only a dict has the method.\<close>

fun py_get :: "json \<Rightarrow> string \<Rightarrow> json \<Rightarrow> pyerr + json" where
  "py_get (JObj kvs) k d = Inr (case map_of kvs k of Some v \<Rightarrow> v | None \<Rightarrow> d)"
| "py_get _ k d = Inl AttributeError"

text \<open>\<open>x[k]\<close> for a string \<open>k\<close>.\<close>

fun py_item :: "json \<Rightarrow> string \<Rightarrow> pyerr + json" where
  "py_item (JObj kvs) k = (case map_of kvs k of Some v \<Rightarrow> Inr v | None \<Rightarrow> Inl KeyError)"
| "py_item _ k = Inl TypeError"

text \<open>\<open>x[0]\<close>.\<close>

fun py_first :: "json \<Rightarrow> pyerr + json" where
  "py_first (JList []) = Inl IndexError"
| "py_first (JList (x # xs)) = Inr x"
| "py_first (JStr []) = Inl IndexError"
| "py_first (JStr (c # cs)) = Inr (JStr [c])"
| "py_first (JObj kvs) = Inl KeyError"
| "py_first _ = Inl TypeError"

text \<open>Substring test, for \<open>k in s\<close> on a \<open>str\<close>.\<close>

fun contains_str :: "string \<Rightarrow> string \<Rightarrow> bool" where
  "contains_str [] k = (k = [])"
| "contains_str (c # cs) k = (take (length k) (c # cs) = k \<or> contains_str cs k)"

text \<open>\<open>k in x\<close> for a string \<open>k\<close>: key of a dict, element of a list, substring of a str.\<close>

fun py_in :: "string \<Rightarrow> json \<Rightarrow> pyerr + bool" where
  "py_in k (JObj kvs) = Inr (map_of kvs k \<noteq> None)"
| "py_in k (JList xs) = Inr (JStr k \<in> set xs)"
| "py_in k (JStr s) = Inr (contains_str s k)"
| "py_in k _ = Inl TypeError"

text \<open>\<open>for y in x\<close>: the elements of a list, the characters of a str, the keys of a dict.\<close>

fun py_iter :: "json \<Rightarrow> pyerr + json list" where
  "py_iter (JList xs) = Inr xs"
| "py_iter (JStr s) = Inr (map (\<lambda>c. JStr [c]) s)"
| "py_iter (JObj kvs) = Inr (map (\<lambda>kv. JStr (fst kv)) kvs)"
| "py_iter _ = Inl TypeError"

text \<open>
  \<open>json.loads\<close> and \<open>json.dumps\<close> belong to the standard library, as does \<open>str\<close> on
  a value that is not already a string. The functions of the bridge take them as
  parameters: \<open>loads s = None\<close> stands for \<open>json.JSONDecodeError\<close>.
\<close>

definition py_loads :: "(string \<Rightarrow> json option) \<Rightarrow> json \<Rightarrow> pyerr + json" where
  "py_loads loads v =
     (case v of
        JStr s \<Rightarrow> (case loads s of Some j \<Rightarrow> Inr j | None \<Rightarrow> Inl JSONDecodeError)
      | _ \<Rightarrow> Inl TypeError)"

definition py_str :: "(json \<Rightarrow> string) \<Rightarrow> json \<Rightarrow> string" where
  "py_str repr v = (case v of JStr s \<Rightarrow> s | _ \<Rightarrow> repr v)"

text \<open>\<open>d[k] = v\<close>\<close>

definition dict_set :: "string \<Rightarrow> json \<Rightarrow> (string \<times> json) list \<Rightarrow> (string \<times> json) list" where
  "dict_set k v d = AList.update k v d"

text \<open>
  A finite fragment of \<open>json.loads\<close> and a stand-in for \<open>repr\<close>, to instantiate the
  parameters in closed examples.
\<close>

definition loads_sample :: "string \<Rightarrow> json option" where
  "loads_sample s =
     (if s = ''{}'' then Some (JObj [])
      else if s = ''1'' then Some (JInt 1)
      else if s = ''2'' then Some (JInt 2)
      else None)"

definition repr_sample :: "json \<Rightarrow> string" where
  "repr_sample v = (case v of JNull \<Rightarrow> ''None'' | JBool True \<Rightarrow> ''True''
                     | JBool False \<Rightarrow> ''False'' | _ \<Rightarrow> ''?'')"

section \<open>types.py\<close>

datatype content_block =
    ContentBlock (cb_type: string) (cb_text: json)
  | ToolUse (tu_id: json) (tu_name: json) (tu_input: json) (tu_type: string)

record usage =
  input_tokens :: json
  output_tokens :: json

record message =
  msg_id :: json
  msg_type :: string
  msg_role :: string
  msg_content :: "content_block list"
  msg_model :: json
  msg_stop_reason :: "string option"
  msg_stop_sequence :: "string option"
  msg_usage :: "usage option"

definition OPENAI_TO_ANTHROPIC_STOP_REASON_MAP :: "(string \<times> string) list" where
  "OPENAI_TO_ANTHROPIC_STOP_REASON_MAP =
     [(''stop'', ''end_turn''),
      (''length'', ''max_tokens''),
      (''function_call'', ''tool_use''),
      (''tool_calls'', ''tool_use''),
      (''content_filter'', ''end_turn'')]"

text \<open>\<open>table.get(x, default)\<close> on a table with string keys and a hashable \<open>x\<close>.\<close>

definition table_get :: "(string \<times> string) list \<Rightarrow> json \<Rightarrow> string \<Rightarrow> string" where
  "table_get table x d =
     (case x of
        JStr s \<Rightarrow> (case map_of table s of Some r \<Rightarrow> r | None \<Rightarrow> d)
      | _ \<Rightarrow> d)"

section \<open>transformers/response.py\<close>

text \<open>\<open>_map_finish_reason_to_stop_reason\<close>\<close>

definition map_finish_reason_to_stop_reason :: "json \<Rightarrow> pyerr + string option" where
  "map_finish_reason_to_stop_reason finish_reason =
     (if finish_reason = JNull then Inr None
      else if \<not> hashable finish_reason then Inl TypeError
      else Inr (Some (table_get OPENAI_TO_ANTHROPIC_STOP_REASON_MAP finish_reason ''end_turn'')))"

text \<open>
  The body of the loop over \<open>message["tool_calls"]\<close>: the block built from one entry,
  or none when the entry has no \<open>function\<close>. Only \<open>json.JSONDecodeError\<close> is caught.
\<close>

definition tool_use_of_call :: "(string \<Rightarrow> json option) \<Rightarrow> json \<Rightarrow> pyerr + content_block option" where
  "tool_use_of_call loads tool_call =
     pbind (py_get tool_call ''function'' JNull) (\<lambda>f.
       if truthy f then
         pbind (py_item tool_call ''function'') (\<lambda>func.
         pbind (py_get func ''arguments'' (JStr ''{}'')) (\<lambda>a.
         pbind (case py_loads loads a of
                  Inl e \<Rightarrow> if e = JSONDecodeError then Inr (JObj []) else Inl e
                | Inr j \<Rightarrow> Inr j) (\<lambda>arguments.
         pbind (py_get tool_call ''id'' (JStr [])) (\<lambda>i.
         pbind (py_get func ''name'' (JStr [])) (\<lambda>n.
           Inr (Some (ToolUse i n arguments ''tool_use'')))))))
       else Inr None)"

fun tool_calls_loop ::
  "(string \<Rightarrow> json option) \<Rightarrow> content_block list \<Rightarrow> json list \<Rightarrow> pyerr + content_block list" where
  "tool_calls_loop loads content_blocks [] = Inr content_blocks"
| "tool_calls_loop loads content_blocks (tool_call # rest) =
     (case tool_use_of_call loads tool_call of
        Inl e \<Rightarrow> Inl e
      | Inr None \<Rightarrow> tool_calls_loop loads content_blocks rest
      | Inr (Some tool_use) \<Rightarrow> tool_calls_loop loads (content_blocks @ [tool_use]) rest)"

text \<open>\<open>openai_response["choices"][0] if openai_response.get("choices") else {}\<close>\<close>

definition first_choice :: "json \<Rightarrow> pyerr + json" where
  "first_choice openai_response =
     pbind (py_get openai_response ''choices'' JNull) (\<lambda>cs.
       if truthy cs then pbind (py_item openai_response ''choices'') py_first
       else Inr (JObj []))"

text \<open>
  The part of \<open>transform_openai_to_anthropic\<close> that fills \<open>content_blocks\<close> from
  \<open>message\<close>: the text block, then the tool calls.
\<close>

definition message_blocks :: "(string \<Rightarrow> json option) \<Rightarrow> json \<Rightarrow> pyerr + content_block list" where
  "message_blocks loads message =
     pbind (py_get message ''content'' JNull) (\<lambda>c.
     pbind (if truthy c
            then pbind (py_item message ''content'') (\<lambda>t. Inr [ContentBlock ''text'' t])
            else Inr []) (\<lambda>blocks0.
     pbind (py_get message ''tool_calls'' JNull) (\<lambda>tcs.
       if truthy tcs
       then pbind (pbind (py_item message ''tool_calls'') py_iter) (tool_calls_loop loads blocks0)
       else Inr blocks0)))"

text \<open>
  \<open>transform_openai_to_anthropic\<close>. The second parameter is the value of
  \<open>uuid.uuid4().hex\<close> drawn for this call.
\<close>

definition transform_openai_to_anthropic ::
  "(string \<Rightarrow> json option) \<Rightarrow> string \<Rightarrow> json \<Rightarrow> pyerr + message" where
  "transform_openai_to_anthropic loads uuid_hex openai_response =
     pbind (first_choice openai_response) (\<lambda>choice.
     pbind (py_get choice ''message'' (JObj [])) (\<lambda>message.
     pbind (message_blocks loads message) (\<lambda>content_blocks.
     pbind (py_get choice ''finish_reason'' JNull) (\<lambda>finish_reason.
     pbind (map_finish_reason_to_stop_reason finish_reason) (\<lambda>stop_reason.
     pbind (py_get openai_response ''usage'' (JObj [])) (\<lambda>usage_data.
     pbind (py_get usage_data ''prompt_tokens'' (JInt 0)) (\<lambda>pt.
     pbind (py_get usage_data ''completion_tokens'' (JInt 0)) (\<lambda>ct.
     pbind (py_get openai_response ''id'' (JStr (''msg_'' @ uuid_hex))) (\<lambda>i.
     pbind (py_get openai_response ''model'' (JStr ''unknown'')) (\<lambda>m.
       Inr \<lparr> msg_id = i, msg_type = ''message'', msg_role = ''assistant'',
             msg_content = content_blocks, msg_model = m,
             msg_stop_reason = stop_reason, msg_stop_sequence = None,
             msg_usage = Some \<lparr> input_tokens = pt, output_tokens = ct \<rparr> \<rparr>))))))))))"

section \<open>exceptions.py\<close>

datatype error_class =
    APIError
  | AuthenticationError
  | BadRequestError
  | ConflictError
  | InternalServerError
  | NotFoundError
  | PermissionDeniedError
  | RateLimitError
  | UnprocessableEntityError

text \<open>
  An exception object: its class, the message given to \<open>Exception.__init__\<close>, and the
  attributes \<open>request\<close> (always \<open>None\<close> here) and \<open>response\<close> that
  \<open>APIError.__init__\<close> stores. There is no other attribute.
\<close>

record 'r api_error =
  err_class :: error_class
  err_message :: json
  err_response :: "'r option"

definition error_class_of_status :: "int \<Rightarrow> error_class" where
  "error_class_of_status status_code =
     (if status_code = 400 then BadRequestError
      else if status_code = 401 then AuthenticationError
      else if status_code = 403 then PermissionDeniedError
      else if status_code = 404 then NotFoundError
      else if status_code = 409 then ConflictError
      else if status_code = 422 then UnprocessableEntityError
      else if status_code = 429 then RateLimitError
      else if status_code \<ge> 500 then InternalServerError
      else APIError)"

definition error_message :: "(json \<Rightarrow> string) \<Rightarrow> json \<Rightarrow> pyerr + json" where
  "error_message repr error_data =
     (if truthy error_data then
        pbind (py_in ''error'' error_data) (\<lambda>has_error.
          if has_error then
            pbind (py_item error_data ''error'') (\<lambda>e.
              if is_dict e then py_get e ''message'' (JStr ''Unknown error'')
              else Inr (JStr (py_str repr e)))
          else
            pbind (py_in ''message'' error_data) (\<lambda>has_message.
              if has_message then py_item error_data ''message''
              else Inr (JStr ''Unknown error'')))
      else Inr (JStr ''Unknown error''))"

definition map_openai_error_to_anthropic ::
  "(json \<Rightarrow> string) \<Rightarrow> int \<Rightarrow> json \<Rightarrow> 'r option \<Rightarrow> pyerr + 'r api_error" where
  "map_openai_error_to_anthropic repr status_code error_data response =
     pbind (error_message repr error_data) (\<lambda>message.
       Inr \<lparr> err_class = error_class_of_status status_code,
             err_message = message,
             err_response = response \<rparr>)"

section \<open>streaming.py: the SSE parser\<close>

text \<open>Characters that \<open>str.strip()\<close> removes (\<open>str.isspace\<close>, code points below 256).\<close>

definition is_space :: "char \<Rightarrow> bool" where
  "is_space c =
     (let n = (of_char c :: nat)
      in (9 \<le> n \<and> n \<le> 13) \<or> (28 \<le> n \<and> n \<le> 32) \<or> n = 133 \<or> n = 160)"

definition strip :: "string \<Rightarrow> string" where
  "strip s = rev (dropWhile is_space (rev (dropWhile is_space s)))"

text \<open>\<open>s.split("\n")\<close>\<close>

fun split_nl :: "string \<Rightarrow> string list" where
  "split_nl [] = [[]]"
| "split_nl (c # cs) =
     (if c = CHR 0x0A then [] # split_nl cs
      else (case split_nl cs of l # ls \<Rightarrow> (c # l) # ls | [] \<Rightarrow> [[c]]))"

text \<open>\<open>"\n".join(xs)\<close> on strings.\<close>

fun join_nl :: "string list \<Rightarrow> string" where
  "join_nl [] = []"
| "join_nl [x] = x"
| "join_nl (x # y # ys) = x @ CHR 0x0A # join_nl (y # ys)"

text \<open>
  \<open>s.split(sep, 1)\<close> for a non-empty \<open>sep\<close> that occurs in \<open>s\<close>: the text before
  and after the first occurrence; \<open>None\<close> when \<open>sep\<close> does not occur in \<open>s\<close>.
\<close>

fun split_once :: "string \<Rightarrow> string \<Rightarrow> (string \<times> string) option" where
  "split_once sep [] = None"
| "split_once sep (c # cs) =
     (if take (length sep) (c # cs) = sep then Some ([], drop (length sep) (c # cs))
      else (case split_once sep cs of
              None \<Rightarrow> None
            | Some (a, b) \<Rightarrow> Some (c # a, b)))"

text \<open>\<open>SSEParser.parse_line\<close>: the single entry of the returned dict, or \<open>None\<close>.\<close>

definition parse_line :: "string \<Rightarrow> (string \<times> string) option" where
  "parse_line line0 =
     (let line = strip line0 in
      if line = [] \<or> take 1 line = '':'' then None
      else (case split_once '':'' line of
              Some (key, v) \<Rightarrow> Some (strip key, strip v)
            | None \<Rightarrow> Some (line, [])))"

text \<open>The loop of \<open>SSEParser.parse_event\<close> over the lines, on \<open>event\<close> and \<open>data_lines\<close>.\<close>

fun parse_event_lines ::
  "(string \<times> json) list \<Rightarrow> string list \<Rightarrow> string list \<Rightarrow> (string \<times> json) list \<times> string list" where
  "parse_event_lines event data_lines [] = (event, data_lines)"
| "parse_event_lines event data_lines (line # rest) =
     (case parse_line line of
        None \<Rightarrow> parse_event_lines event data_lines rest
      | Some (key, v) \<Rightarrow>
          if key = ''data'' then parse_event_lines event (data_lines @ [v]) rest
          else parse_event_lines (dict_set key (JStr v) event) data_lines rest)"

text \<open>\<open>SSEParser.parse_event\<close>\<close>

definition parse_event :: "(string \<Rightarrow> json option) \<Rightarrow> string \<Rightarrow> (string \<times> json) list option" where
  "parse_event loads lines =
     (case parse_event_lines [] [] (split_nl lines) of (event, data_lines) \<Rightarrow>
        if data_lines \<noteq> [] then
          (let data = join_nl data_lines in
           if data = ''[DONE]'' then Some [(''event'', JStr ''done'')]
           else
             (let event2 = dict_set ''data''
                             (case loads data of Some j \<Rightarrow> j | None \<Rightarrow> JStr data) event
              in if event2 \<noteq> [] then Some event2 else None))
        else if event \<noteq> [] then Some event else None)"

text \<open>
  The inner \<open>while "\n\n" in buffer\<close> loop of \<open>parse_openai_streaming_response\<close>:
  the payloads yielded, the buffer left, and whether the generator returned.
\<close>

function drain :: "(string \<Rightarrow> json option) \<Rightarrow> string \<Rightarrow> json list \<times> string \<times> bool" where
  "drain loads buffer =
     (case split_once [CHR 0x0A, CHR 0x0A] buffer of
        None \<Rightarrow> ([], buffer, False)
      | Some (event_data, rest) \<Rightarrow>
          (case parse_event loads event_data of
             None \<Rightarrow> drain loads rest
           | Some event \<Rightarrow>
               if map_of event ''event'' = Some (JStr ''done'') then ([], rest, True)
               else
                 (case map_of event ''data'' of
                    Some d \<Rightarrow> (case drain loads rest of (ys, b, r) \<Rightarrow> (d # ys, b, r))
                  | None \<Rightarrow> drain loads rest)))"
  by pat_completeness auto
termination
proof (relation "measure (\<lambda>(loads, buffer). length buffer)")
  have shorter: "split_once sep s = Some (a, b) \<Longrightarrow> sep \<noteq> [] \<Longrightarrow> length b < length s"
    for sep s a b
    by (induction s arbitrary: a) (auto split: if_splits option.splits)
  show "wf (measure (\<lambda>(loads :: string \<Rightarrow> json option, buffer). length buffer))"
    by simp
  show "((loads, rest), (loads, buffer)) \<in> measure (\<lambda>(loads, buffer). length buffer)"
    if "split_once [CHR 0x0A, CHR 0x0A] buffer = Some x" "(event_data, rest) = x"
    for loads :: "string \<Rightarrow> json option" and buffer x event_data rest
    using shorter [of "[CHR 0x0A, CHR 0x0A]" buffer event_data rest] that by simp
  then show "((loads, rest), (loads, buffer)) \<in> measure (\<lambda>(loads, buffer). length buffer)"
    if "split_once [CHR 0x0A, CHR 0x0A] buffer = Some x" "(event_data, rest) = x"
    for loads :: "string \<Rightarrow> json option" and buffer x event_data rest
    using that by blast
  then show "((loads, rest), (loads, buffer)) \<in> measure (\<lambda>(loads, buffer). length buffer)"
    if "split_once [CHR 0x0A, CHR 0x0A] buffer = Some x" "(event_data, rest) = x"
    for loads :: "string \<Rightarrow> json option" and buffer x event_data rest
    using that by blast
qed

text \<open>The outer loop over \<open>response.iter_text()\<close>.\<close>

fun parse_loop :: "(string \<Rightarrow> json option) \<Rightarrow> string \<Rightarrow> string list \<Rightarrow> json list" where
  "parse_loop loads buffer [] = []"
| "parse_loop loads buffer (chunk # chunks) =
     (case drain loads (buffer @ chunk) of (ys, buffer2, returned) \<Rightarrow>
        if returned then ys else ys @ parse_loop loads buffer2 chunks)"

definition parse_openai_streaming_response :: "(string \<Rightarrow> json option) \<Rightarrow> string list \<Rightarrow> json list" where
  "parse_openai_streaming_response loads chunks = parse_loop loads [] chunks"

section \<open>streaming.py: the stream transducer\<close>

record streaming_message =
  sm_id :: json
  sm_type :: string
  sm_role :: json
  sm_content :: "content_block list"
  sm_model :: json
  sm_stop_reason :: "string option"
  sm_stop_sequence :: "string option"
  sm_usage :: "usage option"

text \<open>
  An event holds the values its fields have when it is yielded: \<open>MessageStart\<close> and
  \<open>ContentBlockStart\<close> refer to objects that the generator goes on updating.
\<close>

datatype streaming_event =
    MessageStart streaming_message
  | ContentBlockStart nat content_block
  | ContentBlockDelta nat json
  | ContentBlockStop nat
  | MessageDelta json "usage option"
  | MessageStop

text \<open>
  The local variables of the generator. The blocks of \<open>content_blocks\<close> and of
  \<open>current_message.content\<close> are the same objects, so an update of a block shows in
  both lists.
\<close>

record stream_state =
  current_message :: streaming_message
  content_blocks :: "content_block list"

definition initial_state :: stream_state where
  "initial_state =
     \<lparr> current_message =
         \<lparr> sm_id = JStr [], sm_type = ''message'', sm_role = JStr ''assistant'',
           sm_content = [], sm_model = JStr [], sm_stop_reason = None,
           sm_stop_sequence = None, sm_usage = None \<rparr>,
       content_blocks = [] \<rparr>"

text \<open>
  What a part of the loop body leaves behind: the state, the events yielded, and the
  exception that ended it, if any. Events yielded before an exception stay yielded.
\<close>

type_synonym step_result = "stream_state \<times> streaming_event list \<times> pyerr option"

definition then_phase :: "step_result \<Rightarrow> (stream_state \<Rightarrow> step_result) \<Rightarrow> step_result" where
  "then_phase r f =
     (case r of
        (st, evs, Some e) \<Rightarrow> (st, evs, Some e)
      | (st, evs, None) \<Rightarrow> (case f st of (st2, evs2, x) \<Rightarrow> (st2, evs @ evs2, x)))"

definition append_block :: "content_block \<Rightarrow> stream_state \<Rightarrow> stream_state" where
  "append_block b st =
     st \<lparr> content_blocks := content_blocks st @ [b],
          current_message := (current_message st)
            \<lparr> sm_content := sm_content (current_message st) @ [b] \<rparr> \<rparr>"

text \<open>\<open>if delta.get("role"): ...\<close>\<close>

definition role_phase :: "stream_state \<Rightarrow> json \<Rightarrow> json \<Rightarrow> step_result" where
  "role_phase st event delta =
     (case py_get delta ''role'' JNull of
        Inl e \<Rightarrow> (st, [], Some e)
      | Inr r \<Rightarrow>
          if truthy r then
            (case pbind (py_get event ''id'' (JStr [])) (\<lambda>i.
                  pbind (py_get event ''model'' (JStr [])) (\<lambda>m.
                  pbind (py_item delta ''role'') (\<lambda>r2. Inr (i, m, r2)))) of
               Inl e \<Rightarrow> (st, [], Some e)
             | Inr (i, m, r2) \<Rightarrow>
                 (let st2 = st \<lparr> current_message := (current_message st)
                                   \<lparr> sm_id := i, sm_model := m, sm_role := r2 \<rparr> \<rparr>
                  in (st2, [MessageStart (current_message st2)], None)))
          else (st, [], None))"

text \<open>
  \<open>content_blocks[0].text += content\<close>: the text is a \<open>str\<close> (it starts empty and only
  this statement changes it), so the sum is defined for a \<open>str\<close> only.
\<close>

definition add_text :: "json \<Rightarrow> json \<Rightarrow> pyerr + json" where
  "add_text t content =
     (case (t, content) of
        (JStr a, JStr b) \<Rightarrow> Inr (JStr (a @ b))
      | _ \<Rightarrow> Inl TypeError)"

text \<open>\<open>if "content" in delta and delta["content"]: ...\<close>\<close>

definition content_phase :: "stream_state \<Rightarrow> json \<Rightarrow> step_result" where
  "content_phase st delta =
     (case pbind (py_in ''content'' delta) (\<lambda>b.
             if b then pbind (py_item delta ''content'') (\<lambda>c. Inr (Some c)) else Inr None) of
        Inl e \<Rightarrow> (st, [], Some e)
      | Inr None \<Rightarrow> (st, [], None)
      | Inr (Some content) \<Rightarrow>
          if truthy content then
            (let (st1, evs1) =
                   (if content_blocks st = []
                    then (append_block (ContentBlock ''text'' (JStr [])) st,
                          [ContentBlockStart 0 (ContentBlock ''text'' (JStr []))])
                    else (st, []))
             in case content_blocks st1 of
                  ContentBlock ty t # rest \<Rightarrow>
                    (case add_text t content of
                       Inl e \<Rightarrow> (st1, evs1, Some e)
                     | Inr t2 \<Rightarrow>
                         (st1 \<lparr> content_blocks := (content_blocks st1) [0 := ContentBlock ty t2],
                                current_message := (current_message st1)
                                  \<lparr> sm_content := (sm_content (current_message st1))
                                                     [0 := ContentBlock ty t2] \<rparr> \<rparr>,
                          evs1 @ [ContentBlockDelta 0 (JObj [(''text'', content)])], None))
                | _ \<Rightarrow> (st1, evs1 @ [ContentBlockDelta 0 (JObj [(''text'', content)])], None))
          else (st, [], None))"

text \<open>
  The \<open>ToolUse\<close> built from one entry of \<open>delta["tool_calls"]\<close>, or none when the entry
  has no \<open>function\<close>. Nothing is caught here: an exception of \<open>json.loads\<close> leaves the
  loop body.
\<close>

definition stream_tool_use :: "(string \<Rightarrow> json option) \<Rightarrow> json \<Rightarrow> pyerr + content_block option" where
  "stream_tool_use loads tool_call =
     pbind (py_get tool_call ''function'' JNull) (\<lambda>f.
       if truthy f then
         pbind (py_item tool_call ''function'') (\<lambda>func.
         pbind (py_get tool_call ''id'' (JStr [])) (\<lambda>i.
         pbind (py_get func ''name'' (JStr [])) (\<lambda>n.
         pbind (py_get func ''arguments'' JNull) (\<lambda>a.
         pbind (if truthy a
                then pbind (py_get func ''arguments'' (JStr ''{}'')) (py_loads loads)
                else Inr (JObj [])) (\<lambda>inp.
           Inr (Some (ToolUse i n inp ''tool_use'')))))))
       else Inr None)"

text \<open>\<open>for i, tool_call in enumerate(delta["tool_calls"]): ...\<close>, from position \<open>i\<close> on.\<close>

fun stream_tool_loop ::
  "(string \<Rightarrow> json option) \<Rightarrow> stream_state \<Rightarrow> nat \<Rightarrow> json list \<Rightarrow> step_result" where
  "stream_tool_loop loads st i [] = (st, [], None)"
| "stream_tool_loop loads st i (tool_call # rest) =
     (case stream_tool_use loads tool_call of
        Inl e \<Rightarrow> (st, [], Some e)
      | Inr None \<Rightarrow> stream_tool_loop loads st (Suc i) rest
      | Inr (Some tool_use) \<Rightarrow>
          (let (st1, evs1) =
                 (if length (content_blocks st) \<le> i
                  then (append_block tool_use st, [ContentBlockStart i tool_use])
                  else (st, []))
           in case stream_tool_loop loads st1 (Suc i) rest of
                (st2, evs2, x) \<Rightarrow>
                  (st2,
                   evs1 @ [ContentBlockDelta i (JObj [(''input'', tu_input tool_use)])] @ evs2,
                   x)))"

text \<open>\<open>if "tool_calls" in delta: ...\<close>\<close>

definition tool_phase :: "(string \<Rightarrow> json option) \<Rightarrow> stream_state \<Rightarrow> json \<Rightarrow> step_result" where
  "tool_phase loads st delta =
     (case pbind (py_in ''tool_calls'' delta) (\<lambda>b.
             if b then pbind (pbind (py_item delta ''tool_calls'') py_iter) (\<lambda>tcs. Inr (Some tcs))
             else Inr None) of
        Inl e \<Rightarrow> (st, [], Some e)
      | Inr None \<Rightarrow> (st, [], None)
      | Inr (Some tcs) \<Rightarrow> stream_tool_loop loads st 0 tcs)"

text \<open>The table \<open>stop_reason_map\<close> local to the generator.\<close>

definition stop_reason_map :: "(string \<times> string) list" where
  "stop_reason_map =
     [(''stop'', ''end_turn''),
      (''length'', ''max_tokens''),
      (''tool_calls'', ''tool_use''),
      (''function_call'', ''tool_use''),
      (''content_filter'', ''end_turn'')]"

text \<open>\<open>if "usage" in event: current_message.usage = Usage(...)\<close>\<close>

definition usage_update :: "stream_state \<Rightarrow> json \<Rightarrow> pyerr + stream_state" where
  "usage_update st event =
     pbind (py_in ''usage'' event) (\<lambda>b.
       if b then
         pbind (py_item event ''usage'') (\<lambda>usage_data.
         pbind (py_get usage_data ''prompt_tokens'' (JInt 0)) (\<lambda>pt.
         pbind (py_get usage_data ''completion_tokens'' (JInt 0)) (\<lambda>ct.
           Inr (st \<lparr> current_message := (current_message st)
                      \<lparr> sm_usage := Some \<lparr> input_tokens = pt, output_tokens = ct \<rparr> \<rparr> \<rparr>))))
       else Inr st)"

text \<open>\<open>finish_reason = choice.get("finish_reason"); if finish_reason: ...\<close>\<close>

definition finish_phase :: "stream_state \<Rightarrow> json \<Rightarrow> json \<Rightarrow> step_result" where
  "finish_phase st event choice =
     (case py_get choice ''finish_reason'' JNull of
        Inl e \<Rightarrow> (st, [], Some e)
      | Inr finish_reason \<Rightarrow>
          if truthy finish_reason then
            (let stops = map ContentBlockStop [0 ..< length (content_blocks st)] in
             if \<not> hashable finish_reason then (st, stops, Some TypeError)
             else
               (let sr = table_get stop_reason_map finish_reason ''end_turn'';
                    st1 = st \<lparr> current_message := (current_message st)
                                 \<lparr> sm_stop_reason := Some sr \<rparr> \<rparr>
                in case usage_update st1 event of
                     Inl e \<Rightarrow> (st1, stops, Some e)
                   | Inr st2 \<Rightarrow>
                       (st2,
                        stops @ [MessageDelta (JObj [(''stop_reason'', JStr sr)])
                                   (sm_usage (current_message st2)),
                                 MessageStop],
                        None)))
          else (st, [], None))"

text \<open>\<open>choice = event["choices"][0]; delta = choice.get("delta", {})\<close>\<close>

definition choice_and_delta :: "json \<Rightarrow> pyerr + json \<times> json" where
  "choice_and_delta event =
     pbind (pbind (py_item event ''choices'') py_first) (\<lambda>choice.
     pbind (py_get choice ''delta'' (JObj [])) (\<lambda>delta. Inr (choice, delta)))"

text \<open>
  One pass of the body of \<open>for event in openai_events\<close>: \<open>continue\<close> when there is no
  \<open>choices\<close>, and \<open>except Exception: ... continue\<close> around everything.
\<close>

definition process_event :: "(string \<Rightarrow> json option) \<Rightarrow> stream_state \<Rightarrow> json \<Rightarrow> step_result" where
  "process_event loads st event =
     (case py_in ''choices'' event of
        Inl e \<Rightarrow> (st, [], Some e)
      | Inr False \<Rightarrow> (st, [], None)
      | Inr True \<Rightarrow>
          (case choice_and_delta event of
             Inl e \<Rightarrow> (st, [], Some e)
           | Inr (choice, delta) \<Rightarrow>
               then_phase
                 (then_phase
                    (then_phase (role_phase st event delta) (\<lambda>s. content_phase s delta))
                    (\<lambda>s. tool_phase loads s delta))
                 (\<lambda>s. finish_phase s event choice)))"

fun stream_loop ::
  "(string \<Rightarrow> json option) \<Rightarrow> stream_state \<Rightarrow> json list \<Rightarrow> streaming_event list" where
  "stream_loop loads st [] = []"
| "stream_loop loads st (event # rest) =
     (case process_event loads st event of
        (st2, evs, x) \<Rightarrow> evs @ stream_loop loads st2 rest)"

text \<open>The local variables of the generator once the loop has gone through the chunks.\<close>

fun state_after ::
  "(string \<Rightarrow> json option) \<Rightarrow> stream_state \<Rightarrow> json list \<Rightarrow> stream_state" where
  "state_after loads st [] = st"
| "state_after loads st (event # rest) =
     (case process_event loads st event of
        (st2, evs, x) \<Rightarrow> state_after loads st2 rest)"

text \<open>\<open>transform_openai_stream_to_anthropic\<close>: all the events the generator yields.\<close>

definition transform_openai_stream_to_anthropic ::
  "(string \<Rightarrow> json option) \<Rightarrow> json list \<Rightarrow> streaming_event list" where
  "transform_openai_stream_to_anthropic loads openai_events =
     stream_loop loads initial_state openai_events"

section \<open>transformers/request.py\<close>

text \<open>\<open>"\n".join(parts)\<close>: every part has to be a \<open>str\<close>.\<close>

fun str_items :: "json list \<Rightarrow> string list option" where
  "str_items [] = Some []"
| "str_items (JStr s # rest) = map_option ((#) s) (str_items rest)"
| "str_items (_ # rest) = None"

definition py_join_nl :: "json list \<Rightarrow> pyerr + string" where
  "py_join_nl parts =
     (case str_items parts of None \<Rightarrow> Inl TypeError | Some ss \<Rightarrow> Inr (join_nl ss))"

text \<open>What one pass of the loop of \<open>_transform_content_blocks\<close> appends, and to which list.\<close>

datatype block_part = TextPart json | ToolCall json | ToolResult json | Skipped

definition transform_block ::
  "(json \<Rightarrow> string) \<Rightarrow> (json \<Rightarrow> string) \<Rightarrow> json \<Rightarrow> pyerr + block_part" where
  "transform_block dumps repr block =
     pbind (py_get block ''type'' JNull) (\<lambda>block_type.
     pbind (if block_type = JStr ''text'' then py_in ''text'' block else Inr False) (\<lambda>is_text.
       if is_text then
         pbind (py_item block ''text'') (\<lambda>t. Inr (TextPart t))
       else if block_type = JStr ''tool_use'' then
         pbind (py_get block ''id'' (JStr [])) (\<lambda>i.
         pbind (py_get block ''name'' (JStr [])) (\<lambda>n.
         pbind (py_get block ''input'' (JObj [])) (\<lambda>inp.
           Inr (ToolCall (JObj
             [(''id'', i),
              (''type'', JStr ''function''),
              (''function'', JObj [(''name'', n), (''arguments'', JStr (dumps inp))])])))))
       else if block_type = JStr ''tool_result'' then
         pbind (py_get block ''tool_use_id'' (JStr [])) (\<lambda>tid.
         pbind (py_get block ''content'' (JStr [])) (\<lambda>c.
           Inr (ToolResult (JObj
             [(''role'', JStr ''tool''),
              (''tool_call_id'', tid),
              (''content'', JStr (py_str repr c))]))))
       else Inr Skipped))"

fun collect_blocks ::
  "(json \<Rightarrow> string) \<Rightarrow> (json \<Rightarrow> string) \<Rightarrow> json list \<times> json list \<times> json list \<Rightarrow> json list
     \<Rightarrow> pyerr + json list \<times> json list \<times> json list" where
  "collect_blocks dumps repr acc [] = Inr acc"
| "collect_blocks dumps repr (text_parts, tool_calls, tool_results) (block # rest) =
     (case transform_block dumps repr block of
        Inl e \<Rightarrow> Inl e
      | Inr (TextPart t) \<Rightarrow>
          collect_blocks dumps repr (text_parts @ [t], tool_calls, tool_results) rest
      | Inr (ToolCall c) \<Rightarrow>
          collect_blocks dumps repr (text_parts, tool_calls @ [c], tool_results) rest
      | Inr (ToolResult r) \<Rightarrow>
          collect_blocks dumps repr (text_parts, tool_calls, tool_results @ [r]) rest
      | Inr Skipped \<Rightarrow>
          collect_blocks dumps repr (text_parts, tool_calls, tool_results) rest)"

text \<open>The part of \<open>_transform_content_blocks\<close> under \<open>if text_parts or tool_calls\<close>.\<close>

definition main_message :: "json \<Rightarrow> json list \<Rightarrow> json list \<Rightarrow> pyerr + json list" where
  "main_message role text_parts tool_calls =
     (if text_parts \<noteq> [] \<or> tool_calls \<noteq> [] then
        pbind (if text_parts \<noteq> []
               then pbind (py_join_nl text_parts) (\<lambda>s.
                      Inr (dict_set ''content'' (JStr s) [(''role'', role)]))
               else Inr [(''role'', role)]) (\<lambda>m1.
          Inr [JObj (if tool_calls \<noteq> []
                     then (let m2 = dict_set ''tool_calls'' (JList tool_calls) m1
                           in if text_parts = [] then dict_set ''content'' (JStr []) m2 else m2)
                     else m1)])
      else Inr [])"

text \<open>\<open>_transform_content_blocks\<close>\<close>

definition transform_content_blocks ::
  "(json \<Rightarrow> string) \<Rightarrow> (json \<Rightarrow> string) \<Rightarrow> json \<Rightarrow> json list \<Rightarrow> pyerr + json" where
  "transform_content_blocks dumps repr role blocks =
     pbind (collect_blocks dumps repr ([], [], []) blocks) (\<lambda>(text_parts, tool_calls, tool_results).
     pbind (main_message role text_parts tool_calls) (\<lambda>main.
       (let messages = main @ tool_results in
        Inr (if length messages = 1 \<and> tool_results \<noteq> [] then JList messages
             else if length messages = 1 then messages ! 0
             else if length messages > 1 then JList messages
             else JObj []))))"

text \<open>What one pass of the loop of \<open>_transform_messages\<close> adds to \<open>openai_messages\<close>.\<close>

definition transform_message ::
  "(json \<Rightarrow> string) \<Rightarrow> (json \<Rightarrow> string) \<Rightarrow> json \<Rightarrow> pyerr + json list" where
  "transform_message dumps repr msg =
     pbind (py_item msg ''role'') (\<lambda>role.
     pbind (py_item msg ''content'') (\<lambda>content.
       case content of
         JStr s \<Rightarrow> Inr [JObj [(''role'', role), (''content'', content)]]
       | JList blocks \<Rightarrow>
           pbind (transform_content_blocks dumps repr role blocks) (\<lambda>transformed_msg.
             if truthy transformed_msg then
               (case transformed_msg of
                  JList ms \<Rightarrow> Inr ms
                | _ \<Rightarrow> Inr [transformed_msg])
             else Inr [])
       | _ \<Rightarrow> Inr []))"

fun messages_loop ::
  "(json \<Rightarrow> string) \<Rightarrow> (json \<Rightarrow> string) \<Rightarrow> json list \<Rightarrow> json list \<Rightarrow> pyerr + json list" where
  "messages_loop dumps repr openai_messages [] = Inr openai_messages"
| "messages_loop dumps repr openai_messages (msg # rest) =
     (case transform_message dumps repr msg of
        Inl e \<Rightarrow> Inl e
      | Inr new \<Rightarrow> messages_loop dumps repr (openai_messages @ new) rest)"

text \<open>\<open>_transform_messages\<close>\<close>

definition transform_messages ::
  "(json \<Rightarrow> string) \<Rightarrow> (json \<Rightarrow> string) \<Rightarrow> json \<Rightarrow> json \<Rightarrow> pyerr + json list" where
  "transform_messages dumps repr anthropic_messages system_prompt =
     pbind (py_iter anthropic_messages)
       (messages_loop dumps repr
          (if truthy system_prompt
           then [JObj [(''role'', JStr ''system''), (''content'', system_prompt)]]
           else []))"

text \<open>\<open>_transform_tools_to_functions\<close>\<close>

definition transform_tool :: "json \<Rightarrow> pyerr + json" where
  "transform_tool tool =
     pbind (py_get tool ''name'' (JStr [])) (\<lambda>n.
     pbind (py_get tool ''description'' (JStr [])) (\<lambda>d.
     pbind (py_get tool ''input_schema'' (JObj [])) (\<lambda>p.
       Inr (JObj [(''type'', JStr ''function''),
                  (''function'', JObj [(''name'', n), (''description'', d), (''parameters'', p)])]))))"

fun tools_loop :: "json list \<Rightarrow> json list \<Rightarrow> pyerr + json list" where
  "tools_loop openai_tools [] = Inr openai_tools"
| "tools_loop openai_tools (tool # rest) =
     (case transform_tool tool of
        Inl e \<Rightarrow> Inl e
      | Inr t \<Rightarrow> tools_loop (openai_tools @ [t]) rest)"

definition transform_tools_to_functions :: "json \<Rightarrow> pyerr + json" where
  "transform_tools_to_functions anthropic_tools =
     pbind (py_iter anthropic_tools) (\<lambda>ts.
     pbind (tools_loop [] ts) (\<lambda>r. Inr (JList r)))"

text \<open>\<open>_transform_tool_choice\<close>\<close>

definition transform_tool_choice :: "json \<Rightarrow> json" where
  "transform_tool_choice anthropic_tool_choice =
     (case anthropic_tool_choice of
        JStr s \<Rightarrow>
          if s = ''auto'' then JStr ''auto''
          else if s = ''any'' \<or> s = ''required'' then JStr ''required''
          else JStr ''auto''
      | JObj kvs \<Rightarrow>
          if map_of kvs ''type'' = Some (JStr ''tool'') then
            (case map_of kvs ''name'' of
               Some tool_name \<Rightarrow>
                 if truthy tool_name
                 then JObj [(''type'', JStr ''function''),
                            (''function'', JObj [(''name'', tool_name)])]
                 else JStr ''auto''
             | None \<Rightarrow> JStr ''auto'')
          else JStr ''auto''
      | _ \<Rightarrow> JStr ''auto'')"

text \<open>\<open>if src in params: openai_params[dst] = params[src]\<close>\<close>

definition copy_key ::
  "string \<Rightarrow> string \<Rightarrow> json \<Rightarrow> (string \<times> json) list \<Rightarrow> pyerr + (string \<times> json) list" where
  "copy_key src dst params openai_params =
     pbind (py_in src params) (\<lambda>b.
       if b then pbind (py_item params src) (\<lambda>v. Inr (dict_set dst v openai_params))
       else Inr openai_params)"

text \<open>\<open>if k in params and params[k]: openai_params[k] = f(params[k])\<close>\<close>

definition set_if_truthy ::
  "string \<Rightarrow> (json \<Rightarrow> pyerr + json) \<Rightarrow> json \<Rightarrow> (string \<times> json) list
     \<Rightarrow> pyerr + (string \<times> json) list" where
  "set_if_truthy k f params openai_params =
     pbind (py_in k params) (\<lambda>b.
       if b then
         pbind (py_item params k) (\<lambda>v.
           if truthy v then pbind (f v) (\<lambda>w. Inr (dict_set k w openai_params))
           else Inr openai_params)
       else Inr openai_params)"

text \<open>\<open>transform_anthropic_to_openai\<close>\<close>

definition transform_anthropic_to_openai ::
  "(json \<Rightarrow> string) \<Rightarrow> (json \<Rightarrow> string) \<Rightarrow> json \<Rightarrow> pyerr + (string \<times> json) list" where
  "transform_anthropic_to_openai dumps repr params =
     pbind (py_item params ''model'') (\<lambda>model.
     pbind (py_item params ''messages'') (\<lambda>ms.
     pbind (py_get params ''system'' JNull) (\<lambda>system.
     pbind (transform_messages dumps repr ms system) (\<lambda>messages.
     pbind (copy_key ''max_tokens'' ''max_tokens'' params
              (dict_set ''messages'' (JList messages) (dict_set ''model'' model []))) (\<lambda>p1.
     pbind (copy_key ''temperature'' ''temperature'' params p1) (\<lambda>p2.
     pbind (copy_key ''top_p'' ''top_p'' params p2) (\<lambda>p3.
     pbind (copy_key ''stop_sequences'' ''stop'' params p3) (\<lambda>p4.
     pbind (copy_key ''stream'' ''stream'' params p4) (\<lambda>p5.
     pbind (set_if_truthy ''tools'' transform_tools_to_functions params p5) (\<lambda>p6.
       set_if_truthy ''tool_choice'' (\<lambda>v. Inr (transform_tool_choice v)) params p6))))))))))"

section \<open>Well-formed inputs\<close>

text \<open>
  The shape of a ChatCompletion response that \<open>transform_openai_to_anthropic\<close> reads
  without raising: a dict whose \<open>choices\<close>, when not empty, is a list that starts with
  a dict; \<open>message\<close> is a dict; \<open>tool_calls\<close>, when not empty, is a list of dicts whose
  \<open>function\<close>, when not empty, is a dict with a string for \<open>arguments\<close>;
  \<open>finish_reason\<close> is hashable and \<open>usage\<close> is a dict.
\<close>

definition wf_tool_call :: "json \<Rightarrow> bool" where
  "wf_tool_call tc =
     (case tc of
        JObj kvs \<Rightarrow>
          (case map_of kvs ''function'' of
             None \<Rightarrow> True
           | Some f \<Rightarrow>
               if truthy f then
                 (case f of
                    JObj fk \<Rightarrow> (case map_of fk ''arguments'' of None \<Rightarrow> True | Some a \<Rightarrow> is_str a)
                  | _ \<Rightarrow> False)
               else True)
      | _ \<Rightarrow> False)"

definition wf_message :: "json \<Rightarrow> bool" where
  "wf_message msg =
     (case msg of
        JObj mk \<Rightarrow>
          (case map_of mk ''tool_calls'' of
             None \<Rightarrow> True
           | Some t \<Rightarrow>
               if truthy t then (case t of JList tcs \<Rightarrow> list_all wf_tool_call tcs | _ \<Rightarrow> False)
               else True)
      | _ \<Rightarrow> False)"

definition wf_choice :: "json \<Rightarrow> bool" where
  "wf_choice choice =
     (case choice of
        JObj ck \<Rightarrow>
          (case map_of ck ''message'' of None \<Rightarrow> True | Some msg \<Rightarrow> wf_message msg) \<and>
          (case map_of ck ''finish_reason'' of None \<Rightarrow> True | Some fr \<Rightarrow> hashable fr)
      | _ \<Rightarrow> False)"

definition wf_response :: "json \<Rightarrow> bool" where
  "wf_response resp =
     (case resp of
        JObj kvs \<Rightarrow>
          (case map_of kvs ''choices'' of
             None \<Rightarrow> True
           | Some cs \<Rightarrow>
               if truthy cs then (case cs of JList (c # rest) \<Rightarrow> wf_choice c | _ \<Rightarrow> False)
               else True) \<and>
          (case map_of kvs ''usage'' of None \<Rightarrow> True | Some u \<Rightarrow> is_dict u)
      | _ \<Rightarrow> False)"

text \<open>
  The shape of a Messages request that \<open>transform_anthropic_to_openai\<close> reads without
  raising: a dict with \<open>model\<close> and a list \<open>messages\<close> of dicts that have \<open>role\<close>
  and \<open>content\<close>; the blocks of a content list are dicts, and the \<open>text\<close> of a text
  block is a string; \<open>tools\<close>, when not empty, is a list of dicts.
\<close>

definition wf_block :: "json \<Rightarrow> bool" where
  "wf_block b =
     (case b of
        JObj kvs \<Rightarrow>
          (if map_of kvs ''type'' = Some (JStr ''text'')
           then (case map_of kvs ''text'' of None \<Rightarrow> True | Some t \<Rightarrow> is_str t)
           else True)
      | _ \<Rightarrow> False)"

definition wf_msg :: "json \<Rightarrow> bool" where
  "wf_msg m =
     (case m of
        JObj kvs \<Rightarrow>
          map_of kvs ''role'' \<noteq> None \<and>
          (case map_of kvs ''content'' of
             None \<Rightarrow> False
           | Some (JList blocks) \<Rightarrow> list_all wf_block blocks
           | Some _ \<Rightarrow> True)
      | _ \<Rightarrow> False)"

definition wf_request :: "json \<Rightarrow> bool" where
  "wf_request params =
     (case params of
        JObj kvs \<Rightarrow>
          map_of kvs ''model'' \<noteq> None \<and>
          (case map_of kvs ''messages'' of
             Some (JList ms) \<Rightarrow> list_all wf_msg ms
           | _ \<Rightarrow> False) \<and>
          (case map_of kvs ''tools'' of
             None \<Rightarrow> True
           | Some t \<Rightarrow>
               if truthy t then (case t of JList ts \<Rightarrow> list_all is_dict ts | _ \<Rightarrow> False)
               else True)
      | _ \<Rightarrow> False)"

section \<open>The mappings as the specification words them\<close>

text \<open>
  The three kinds of block that \<open>_transform_content_blocks\<close> tells apart, and the
  message that a tool-result block becomes: role \<open>tool\<close>, the block's \<open>tool_use_id\<close>
  as \<open>tool_call_id\<close>, and its content as a string.
\<close>

definition block_type :: "json \<Rightarrow> json" where
  "block_type b = (case b of JObj kvs \<Rightarrow> (case map_of kvs ''type'' of Some t \<Rightarrow> t | None \<Rightarrow> JNull)
                   | _ \<Rightarrow> JNull)"

definition block_field :: "string \<Rightarrow> json \<Rightarrow> json \<Rightarrow> json" where
  "block_field k d b = (case b of JObj kvs \<Rightarrow> (case map_of kvs k of Some v \<Rightarrow> v | None \<Rightarrow> d)
                        | _ \<Rightarrow> d)"

definition is_text_block :: "json \<Rightarrow> bool" where
  "is_text_block b =
     (block_type b = JStr ''text'' \<and>
      (case b of JObj kvs \<Rightarrow> map_of kvs ''text'' \<noteq> None | _ \<Rightarrow> False))"

definition is_tool_use_block :: "json \<Rightarrow> bool" where
  "is_tool_use_block b = (block_type b = JStr ''tool_use'')"

definition is_tool_result_block :: "json \<Rightarrow> bool" where
  "is_tool_result_block b = (block_type b = JStr ''tool_result'')"

definition tool_result_message :: "(json \<Rightarrow> string) \<Rightarrow> json \<Rightarrow> json" where
  "tool_result_message repr b =
     JObj [(''role'', JStr ''tool''),
           (''tool_call_id'', block_field ''tool_use_id'' (JStr []) b),
           (''content'', JStr (py_str repr (block_field ''content'' (JStr []) b)))]"

definition tool_call_entry :: "(json \<Rightarrow> string) \<Rightarrow> json \<Rightarrow> json" where
  "tool_call_entry dumps b =
     JObj [(''id'', block_field ''id'' (JStr []) b),
           (''type'', JStr ''function''),
           (''function'', JObj [(''name'', block_field ''name'' (JStr []) b),
                                (''arguments'', JStr (dumps (block_field ''input'' (JObj []) b)))])]"

text \<open>The tool choice that the specification gives for a tool choice of the request.\<close>

definition spec_tool_choice :: "json \<Rightarrow> json" where
  "spec_tool_choice tc =
     (if tc = JStr ''auto'' then JStr ''auto''
      else if tc = JStr ''any'' \<or> tc = JStr ''required'' then JStr ''required''
      else if is_str tc then JStr ''auto''
      else if is_dict tc \<and> block_type tc = JStr ''tool'' \<and> truthy (block_field ''name'' JNull tc)
      then JObj [(''type'', JStr ''function''),
                 (''function'', JObj [(''name'', block_field ''name'' JNull tc)])]
      else JStr ''auto'')"

text \<open>The message that the specification extracts from an error body.\<close>

definition spec_error_message :: "json \<Rightarrow> json" where
  "spec_error_message body =
     (case block_field ''error'' JNull body of
        JObj ek \<Rightarrow>
          (case map_of ek ''message'' of
             Some m \<Rightarrow> m
           | None \<Rightarrow> block_field ''message'' (JStr ''Unknown error'') body)
      | _ \<Rightarrow> block_field ''message'' (JStr ''Unknown error'') body)"

text \<open>
  The framing and decoding of an event stream as the specification words them. The
  records of a text are the pieces that end at a double newline, found from the left;
  what follows the last double newline is not a record. The payload of a record is its
  \<open>data\<close> values joined by newlines, decoded as JSON or kept as a string. The
  payloads of a stream are those of its records up to the first one that is \<open>[DONE]\<close>.
\<close>

function complete_records :: "string \<Rightarrow> string list" where
  "complete_records stream_text =
     (case split_once [CHR 0x0A, CHR 0x0A] stream_text of
        None \<Rightarrow> []
      | Some (recd, rest) \<Rightarrow> recd # complete_records rest)"
  by pat_completeness auto
termination
proof (relation "measure length")
  have shorter: "split_once sep s = Some (a, b) \<Longrightarrow> sep \<noteq> [] \<Longrightarrow> length b < length s"
    for sep s a b
    by (induction s arbitrary: a) (auto split: if_splits option.splits)
  show "wf (measure (length :: string \<Rightarrow> nat))"
    by simp
  show "(rest, stream_text) \<in> measure length"
    if "split_once [CHR 0x0A, CHR 0x0A] stream_text = Some x" "(recd, rest) = x"
    for stream_text x recd rest
    using shorter [of "[CHR 0x0A, CHR 0x0A]" stream_text recd rest] that by simp
qed

definition record_fields :: "string \<Rightarrow> (string \<times> string) list" where
  "record_fields recd = List.map_filter parse_line (split_nl recd)"

definition data_payload :: "string \<Rightarrow> string option" where
  "data_payload recd =
     (let ds = map snd (filter (\<lambda>kv. fst kv = ''data'') (record_fields recd))
      in if ds = [] then None else Some (join_nl ds))"

definition decode_payload :: "(string \<Rightarrow> json option) \<Rightarrow> string \<Rightarrow> json" where
  "decode_payload loads d = (case loads d of Some j \<Rightarrow> j | None \<Rightarrow> JStr d)"

fun spec_payloads :: "(string \<Rightarrow> json option) \<Rightarrow> string list \<Rightarrow> json list" where
  "spec_payloads loads [] = []"
| "spec_payloads loads (recd # rest) =
     (case data_payload recd of
        None \<Rightarrow> spec_payloads loads rest
      | Some d \<Rightarrow>
          if d = ''[DONE]'' then []
          else decode_payload loads d # spec_payloads loads rest)"

text \<open>A recd with a field line \<open>event: done\<close>.\<close>

definition has_event_done :: "string \<Rightarrow> bool" where
  "has_event_done recd = ((''event'', ''done'') \<in> set (record_fields recd))"

text \<open>
  The \<open>type\<close> attribute of an event, and what a chunk carries: a role when the
  \<open>role\<close> of its delta is true in a condition, a finish reason when the
  \<open>finish_reason\<close> of its first choice is.
\<close>

fun event_type :: "streaming_event \<Rightarrow> string" where
  "event_type (MessageStart m) = ''message_start''"
| "event_type (ContentBlockStart i b) = ''content_block_start''"
| "event_type (ContentBlockDelta i d) = ''content_block_delta''"
| "event_type (ContentBlockStop i) = ''content_block_stop''"
| "event_type (MessageDelta d u) = ''message_delta''"
| "event_type MessageStop = ''message_stop''"

fun is_message_start :: "streaming_event \<Rightarrow> bool" where
  "is_message_start (MessageStart m) = True"
| "is_message_start _ = False"

fun is_message_stop :: "streaming_event \<Rightarrow> bool" where
  "is_message_stop MessageStop = True"
| "is_message_stop _ = False"

fun is_block_open :: "streaming_event \<Rightarrow> bool" where
  "is_block_open (ContentBlockStart i b) = True"
| "is_block_open (ContentBlockDelta i d) = True"
| "is_block_open _ = False"

definition chunk_parts :: "json \<Rightarrow> (json \<times> json) option" where
  "chunk_parts event =
     (case py_in ''choices'' event of
        Inr True \<Rightarrow> (case choice_and_delta event of Inr cd \<Rightarrow> Some cd | Inl e \<Rightarrow> None)
      | _ \<Rightarrow> None)"

definition carries_role :: "json \<Rightarrow> bool" where
  "carries_role event =
     (case chunk_parts event of
        Some (choice, delta) \<Rightarrow> truthy (block_field ''role'' JNull delta)
      | None \<Rightarrow> False)"

definition carries_finish :: "json \<Rightarrow> bool" where
  "carries_finish event =
     (case chunk_parts event of
        Some (choice, delta) \<Rightarrow> truthy (block_field ''finish_reason'' JNull choice)
      | None \<Rightarrow> False)"

text \<open>The stop reason that the specification gives for a finish reason.\<close>

definition spec_stop_reason :: "json \<Rightarrow> string" where
  "spec_stop_reason fr =
     (if fr = JStr ''stop'' then ''end_turn''
      else if fr = JStr ''length'' then ''max_tokens''
      else if fr = JStr ''tool_calls'' \<or> fr = JStr ''function_call'' then ''tool_use''
      else if fr = JStr ''content_filter'' then ''end_turn''
      else ''end_turn'')"

text \<open>
  The finish reason of a chunk, the usage that a chunk carries, and the events that
  the specification gives for a finish reason: a stop for every open block in
  ascending order, the message delta with the stop reason and the usage, and the
  message stop.
\<close>

definition chunk_finish_reason :: "json \<Rightarrow> json" where
  "chunk_finish_reason event =
     (case chunk_parts event of
        Some (choice, delta) \<Rightarrow> block_field ''finish_reason'' JNull choice
      | None \<Rightarrow> JNull)"

definition chunk_usage :: "json \<Rightarrow> usage option" where
  "chunk_usage event =
     (case event of
        JObj ek \<Rightarrow>
          (case map_of ek ''usage'' of
             Some (JObj u) \<Rightarrow>
               Some \<lparr> input_tokens = (case map_of u ''prompt_tokens'' of Some n \<Rightarrow> n | None \<Rightarrow> JInt 0),
                      output_tokens = (case map_of u ''completion_tokens'' of Some n \<Rightarrow> n | None \<Rightarrow> JInt 0) \<rparr>
           | _ \<Rightarrow> None)
      | _ \<Rightarrow> None)"

definition finish_events :: "stream_state \<Rightarrow> json \<Rightarrow> streaming_event list" where
  "finish_events st fr =
     map ContentBlockStop [0 ..< length (content_blocks st)] @
     [MessageDelta (JObj [(''stop_reason'', JStr (spec_stop_reason fr))])
        (sm_usage (current_message st)),
      MessageStop]"

definition dumps_sample :: "json \<Rightarrow> string" where
  "dumps_sample v = (case v of JObj [] \<Rightarrow> ''{}'' | _ \<Rightarrow> ''?'')"

section \<open>Basic facts\<close>

lemma pbind_Inr [simp]: "pbind (Inr x) f = f x"
  by (simp add: pbind_def)

lemma pbind_Inl [simp]: "pbind (Inl e) f = Inl e"
  by (simp add: pbind_def)

lemma pbind_eq_Inr: "pbind m f = Inr y \<longleftrightarrow> (\<exists>x. m = Inr x \<and> f x = Inr y)"
  by (cases m) simp_all

lemma py_get_Inr: "py_get v k d = Inr x \<Longrightarrow> \<exists>kvs. v = JObj kvs \<and> x = (case map_of kvs k of Some y \<Rightarrow> y | None \<Rightarrow> d)"
  by (cases v) auto

lemma tool_use_of_call_wf:
  "wf_tool_call tc \<Longrightarrow> \<exists>r. tool_use_of_call loads tc = Inr r"
proof -
  assume wf: "wf_tool_call tc"
  then obtain kvs where tc: "tc = JObj kvs" by (cases tc) (auto simp: wf_tool_call_def)
  show ?thesis
  proof (cases "map_of kvs ''function''")
    case None
    then show ?thesis by (simp add: tc tool_use_of_call_def)
  next
    case (Some f)
    show ?thesis
    proof (cases "truthy f")
      case False
      with Some show ?thesis by (simp add: tc tool_use_of_call_def)
    next
      case True
      with wf Some tc obtain fk where f: "f = JObj fk"
        by (cases f) (auto simp: wf_tool_call_def)
      have "\<exists>s. (case map_of fk ''arguments'' of None \<Rightarrow> JStr ''{}'' | Some v \<Rightarrow> v) = JStr s"
        using wf Some tc True f
        by (cases "map_of fk ''arguments''") (auto simp: wf_tool_call_def elim: is_str.elims)
      then obtain s where s: "(case map_of fk ''arguments'' of None \<Rightarrow> JStr ''{}'' | Some v \<Rightarrow> v) = JStr s"
        by blast
      show ?thesis
        using Some True f s
        by (cases "loads s") (simp_all add: tc tool_use_of_call_def py_loads_def)
    qed
  qed
qed

lemma tool_calls_loop_wf:
  "list_all wf_tool_call tcs \<Longrightarrow> \<exists>bs. tool_calls_loop loads acc tcs = Inr bs"
proof (induction tcs arbitrary: acc)
  case Nil
  then show ?case by simp
next
  case (Cons tc tcs)
  then obtain r where "tool_use_of_call loads tc = Inr r"
    using tool_use_of_call_wf [of tc loads] by auto
  with Cons show ?case by (cases r) auto
qed

lemma is_dict_obj: "is_dict v \<Longrightarrow> \<exists>kvs. v = JObj kvs"
  by (cases v) simp_all

lemma first_choice_wf:
  assumes "wf_response (JObj kvs)"
  shows "\<exists>c. first_choice (JObj kvs) = Inr c \<and> wf_choice c"
proof (cases "map_of kvs ''choices''")
  case None
  then show ?thesis by (simp add: first_choice_def wf_choice_def)
next
  case (Some cs)
  show ?thesis
  proof (cases "truthy cs")
    case False
    with Some show ?thesis by (simp add: first_choice_def wf_choice_def)
  next
    case True
    with assms Some have shape: "case cs of JList (c # rest) \<Rightarrow> wf_choice c | _ \<Rightarrow> False"
      by (simp add: wf_response_def)
    then obtain c rest where "cs = JList (c # rest)" "wf_choice c"
      by (cases cs) (auto split: list.splits)
    with Some True show ?thesis by (simp add: first_choice_def)
  qed
qed

lemma message_blocks_wf:
  assumes "wf_message msg"
  shows "\<exists>bs. message_blocks loads msg = Inr bs"
proof -
  from assms obtain mk where msg: "msg = JObj mk" by (cases msg) (auto simp: wf_message_def)
  have "\<exists>b0. (if truthy (case map_of mk ''content'' of None \<Rightarrow> JNull | Some v \<Rightarrow> v)
            then pbind (py_item (JObj mk) ''content'') (\<lambda>t. Inr [ContentBlock ''text'' t])
            else Inr []) = Inr b0"
    by (cases "map_of mk ''content''") simp_all
  then obtain b0 where b0: "(if truthy (case map_of mk ''content'' of None \<Rightarrow> JNull | Some v \<Rightarrow> v)
            then pbind (py_item (JObj mk) ''content'') (\<lambda>t. Inr [ContentBlock ''text'' t])
            else Inr []) = Inr b0"
    by blast
  show ?thesis
  proof (cases "map_of mk ''tool_calls''")
    case None
    with b0 show ?thesis by (simp add: msg message_blocks_def)
  next
    case (Some t)
    show ?thesis
    proof (cases "truthy t")
      case False
      with Some b0 show ?thesis by (simp add: msg message_blocks_def)
    next
      case True
      with assms Some msg have "case t of JList tcs \<Rightarrow> list_all wf_tool_call tcs | _ \<Rightarrow> False"
        by (simp add: wf_message_def)
      then obtain tcs where "t = JList tcs" "list_all wf_tool_call tcs"
        by (cases t) auto
      with Some True b0 tool_calls_loop_wf [of tcs loads b0] show ?thesis
        by (auto simp: msg message_blocks_def)
    qed
  qed
qed

lemma message_blocks_empty:
  assumes "\<not> truthy (case map_of mk ''content'' of Some v \<Rightarrow> v | None \<Rightarrow> JNull)"
    and "\<not> truthy (case map_of mk ''tool_calls'' of Some v \<Rightarrow> v | None \<Rightarrow> JNull)"
  shows "message_blocks loads (JObj mk) = Inr []"
  using assms by (simp add: message_blocks_def)

lemma transform_returns:
  assumes "wf_response resp"
  shows "\<exists>m. transform_openai_to_anthropic loads uuid_hex resp = Inr m"
proof -
  from assms obtain kvs where resp: "resp = JObj kvs"
    by (cases resp) (auto simp: wf_response_def)
  from assms resp obtain c where fc: "first_choice resp = Inr c" and wc: "wf_choice c"
    using first_choice_wf by blast
  then obtain ck where c: "c = JObj ck" by (cases c) (auto simp: wf_choice_def)
  define msg where "msg = (case map_of ck ''message'' of Some v \<Rightarrow> v | None \<Rightarrow> JObj [])"
  have wm: "wf_message msg" using wc c
    by (cases "map_of ck ''message''") (simp_all add: msg_def wf_choice_def wf_message_def)
  then obtain bs where bs: "message_blocks loads msg = Inr bs"
    using message_blocks_wf by blast
  have h: "hashable (case map_of ck ''finish_reason'' of None \<Rightarrow> JNull | Some v \<Rightarrow> v)"
    using wc c by (auto simp: wf_choice_def split: option.splits)
  then have "\<exists>sr. map_finish_reason_to_stop_reason
      (case map_of ck ''finish_reason'' of None \<Rightarrow> JNull | Some v \<Rightarrow> v) = Inr sr"
    by (simp add: map_finish_reason_to_stop_reason_def)
  then obtain sr where sr: "map_finish_reason_to_stop_reason
      (case map_of ck ''finish_reason'' of None \<Rightarrow> JNull | Some v \<Rightarrow> v) = Inr sr"
    by blast
  have "is_dict (case map_of kvs ''usage'' of None \<Rightarrow> JObj [] | Some v \<Rightarrow> v)"
    using assms resp by (cases "map_of kvs ''usage''") (simp_all add: wf_response_def)
  then obtain uk where uk: "(case map_of kvs ''usage'' of None \<Rightarrow> JObj [] | Some v \<Rightarrow> v) = JObj uk"
    using is_dict_obj by blast
  show ?thesis
    unfolding transform_openai_to_anthropic_def
    using fc c bs sr uk resp msg_def
    by simp
qed

lemma transform_id:
  assumes "transform_openai_to_anthropic loads uuid_hex (JObj kvs) = Inr m"
  shows "msg_id m = (case map_of kvs ''id'' of Some v \<Rightarrow> v | None \<Rightarrow> JStr (''msg_'' @ uuid_hex))"
  using assms unfolding transform_openai_to_anthropic_def
  by (clarsimp simp: pbind_eq_Inr cong: option.case_cong)

lemma transform_model:
  assumes "transform_openai_to_anthropic loads uuid_hex (JObj kvs) = Inr m"
  shows "msg_model m = (case map_of kvs ''model'' of Some v \<Rightarrow> v | None \<Rightarrow> JStr ''unknown'')"
  using assms unfolding transform_openai_to_anthropic_def
  by (clarsimp simp: pbind_eq_Inr)

lemma transform_usage:
  assumes "transform_openai_to_anthropic loads uuid_hex (JObj kvs) = Inr m"
  shows "\<exists>uk. (case map_of kvs ''usage'' of Some v \<Rightarrow> v | None \<Rightarrow> JObj []) = JObj uk \<and>
           msg_usage m = Some \<lparr> input_tokens = (case map_of uk ''prompt_tokens'' of Some v \<Rightarrow> v | None \<Rightarrow> JInt 0),
                                output_tokens = (case map_of uk ''completion_tokens'' of Some v \<Rightarrow> v | None \<Rightarrow> JInt 0) \<rparr>"
  using assms unfolding transform_openai_to_anthropic_def
  apply (clarsimp simp: pbind_eq_Inr)
  apply (drule py_get_Inr [where k = "''prompt_tokens''"])
  apply (drule py_get_Inr [where k = "''completion_tokens''"])
  apply clarsimp
  done

lemma transform_content:
  assumes "transform_openai_to_anthropic loads uuid_hex resp = Inr m"
  shows "\<exists>c msg. first_choice resp = Inr c \<and> py_get c ''message'' (JObj []) = Inr msg \<and>
           message_blocks loads msg = Inr (msg_content m)"
  using assms unfolding transform_openai_to_anthropic_def
  by (clarsimp simp: pbind_eq_Inr)

lemma transform_stop_reason:
  assumes "transform_openai_to_anthropic loads uuid_hex resp = Inr m"
  shows "\<exists>c fr. first_choice resp = Inr c \<and> py_get c ''finish_reason'' JNull = Inr fr \<and>
           map_finish_reason_to_stop_reason fr = Inr (msg_stop_reason m)"
  using assms unfolding transform_openai_to_anthropic_def
  by (clarsimp simp: pbind_eq_Inr)


lemma map_finish_table:
  "map_finish_reason_to_stop_reason (JStr s) =
     Inr (Some (if s = ''stop'' then ''end_turn''
                else if s = ''length'' then ''max_tokens''
                else if s = ''tool_calls'' \<or> s = ''function_call'' then ''tool_use''
                else if s = ''content_filter'' then ''end_turn''
                else ''end_turn''))"
  by (simp add: map_finish_reason_to_stop_reason_def table_get_def
      OPENAI_TO_ANTHROPIC_STOP_REASON_MAP_def)


section \<open>The response mapper: stop reason, identifier, model, usage\<close>

text \<open>
  C5. On a well-formed response \<open>transform_openai_to_anthropic\<close> returns a message
  whose \<open>stop_reason\<close> is determined by the \<open>finish_reason\<close> of the first choice:
  \<open>stop\<close> gives \<open>end_turn\<close>, \<open>length\<close> gives \<open>max_tokens\<close>, \<open>tool_calls\<close> and
  \<open>function_call\<close> give \<open>tool_use\<close>, \<open>content_filter\<close> gives \<open>end_turn\<close>, any
  other string (and any other hashable value that is not \<open>None\<close>) gives \<open>end_turn\<close>,
  and an absent or \<open>None\<close> finish reason gives the stop reason \<open>None\<close>.
\<close>

theorem C5_finish_reason_table:
  assumes "wf_response resp"
  shows "\<exists>m ck. transform_openai_to_anthropic loads uuid_hex resp = Inr m \<and>
     first_choice resp = Inr (JObj ck) \<and>
     (case map_of ck ''finish_reason'' of
        None \<Rightarrow> msg_stop_reason m = None
      | Some JNull \<Rightarrow> msg_stop_reason m = None
      | Some (JStr s) \<Rightarrow>
          msg_stop_reason m =
            Some (if s = ''stop'' then ''end_turn''
                  else if s = ''length'' then ''max_tokens''
                  else if s = ''tool_calls'' \<or> s = ''function_call'' then ''tool_use''
                  else if s = ''content_filter'' then ''end_turn''
                  else ''end_turn'')
      | Some _ \<Rightarrow> msg_stop_reason m = Some ''end_turn'')"
proof -
  obtain m where m: "transform_openai_to_anthropic loads uuid_hex resp = Inr m"
    using transform_returns [OF assms] by blast
  from transform_stop_reason [OF m] obtain c fr where
    fc: "first_choice resp = Inr c" and
    fr: "py_get c ''finish_reason'' JNull = Inr fr" and
    mp: "map_finish_reason_to_stop_reason fr = Inr (msg_stop_reason m)"
    by blast
  from py_get_Inr [OF fr] obtain ck where
    c: "c = JObj ck" and
    fr2: "fr = (case map_of ck ''finish_reason'' of Some y \<Rightarrow> y | None \<Rightarrow> JNull)"
    by blast
  have "case map_of ck ''finish_reason'' of
        None \<Rightarrow> msg_stop_reason m = None
      | Some JNull \<Rightarrow> msg_stop_reason m = None
      | Some (JStr s) \<Rightarrow>
          msg_stop_reason m =
            Some (if s = ''stop'' then ''end_turn''
                  else if s = ''length'' then ''max_tokens''
                  else if s = ''tool_calls'' \<or> s = ''function_call'' then ''tool_use''
                  else if s = ''content_filter'' then ''end_turn''
                  else ''end_turn'')
      | Some _ \<Rightarrow> msg_stop_reason m = Some ''end_turn''"
  proof (cases "map_of ck ''finish_reason''")
    case None
    with mp fr2 show ?thesis by (simp add: map_finish_reason_to_stop_reason_def)
  next
    case (Some v)
    show ?thesis
    proof (cases v)
      case (JStr s)
      with Some mp fr2 map_finish_table [of s] show ?thesis by simp
    qed (use Some mp fr2 in \<open>auto simp: map_finish_reason_to_stop_reason_def table_get_def split: if_splits\<close>)
  qed
  with m fc c show ?thesis by blast
qed


theorem C5_finish_reason_table_witness:
  "wf_response (JObj [(''choices'', JList [JObj [(''finish_reason'', JStr ''length'')]])]) \<and>
   (\<exists>m. transform_openai_to_anthropic loads_sample ''0''
           (JObj [(''choices'', JList [JObj [(''finish_reason'', JStr ''length'')]])]) = Inr m \<and>
        msg_stop_reason m = Some ''max_tokens'')"
proof -
  let ?R = "JObj [(''choices'', JList [JObj [(''finish_reason'', JStr ''length'')]])]"
  have wf: "wf_response ?R"
    by (simp add: wf_response_def wf_choice_def)
  have fc: "first_choice ?R = Inr (JObj [(''finish_reason'', JStr ''length'')])"
    by (simp add: first_choice_def)
  from C5_finish_reason_table [OF wf, of loads_sample "''0''"] fc wf show ?thesis
    by auto
qed


text \<open>
  C8. On a well-formed response \<open>transform_openai_to_anthropic\<close> returns a message
  whose \<open>id\<close> is the response's \<open>id\<close>, or \<open>msg_\<close> followed by the hexadecimal
  UUID drawn for the call when the response has no \<open>id\<close> key: that identifier is not
  empty, starts with \<open>msg_\<close>, and differs from the one any other UUID gives. Its
  \<open>model\<close> is the response's, or \<open>unknown\<close>; its usage takes \<open>prompt_tokens\<close>
  and \<open>completion_tokens\<close> from \<open>usage\<close>, each 0 when absent; and with \<open>choices\<close>
  absent or empty its content is empty.
\<close>

theorem C8_message_defaults:
  assumes "wf_response (JObj kvs)"
  shows "\<exists>m. transform_openai_to_anthropic loads uuid_hex (JObj kvs) = Inr m \<and>
     msg_id m = (case map_of kvs ''id'' of Some i \<Rightarrow> i | None \<Rightarrow> JStr (''msg_'' @ uuid_hex)) \<and>
     (map_of kvs ''id'' = None \<longrightarrow>
        truthy (msg_id m) \<and>
        (\<forall>u m2. transform_openai_to_anthropic loads u (JObj kvs) = Inr m2 \<and> u \<noteq> uuid_hex
                 \<longrightarrow> msg_id m2 \<noteq> msg_id m)) \<and>
     msg_model m = (case map_of kvs ''model'' of Some x \<Rightarrow> x | None \<Rightarrow> JStr ''unknown'') \<and>
     (\<exists>uk. (case map_of kvs ''usage'' of Some u \<Rightarrow> u | None \<Rightarrow> JObj []) = JObj uk \<and>
        msg_usage m =
          Some \<lparr> input_tokens = (case map_of uk ''prompt_tokens'' of Some n \<Rightarrow> n | None \<Rightarrow> JInt 0),
                 output_tokens = (case map_of uk ''completion_tokens'' of Some n \<Rightarrow> n | None \<Rightarrow> JInt 0) \<rparr>) \<and>
     ((case map_of kvs ''choices'' of None \<Rightarrow> True | Some cs \<Rightarrow> \<not> truthy cs) \<longrightarrow> msg_content m = [])"
proof -
  obtain m where m: "transform_openai_to_anthropic loads uuid_hex (JObj kvs) = Inr m"
    using transform_returns [OF assms] by blast
  have idm: "msg_id m = (case map_of kvs ''id'' of Some i \<Rightarrow> i | None \<Rightarrow> JStr (''msg_'' @ uuid_hex))"
    by (rule transform_id [OF m])
  have uniq: "map_of kvs ''id'' = None \<longrightarrow>
        truthy (msg_id m) \<and>
        (\<forall>u m2. transform_openai_to_anthropic loads u (JObj kvs) = Inr m2 \<and> u \<noteq> uuid_hex
                 \<longrightarrow> msg_id m2 \<noteq> msg_id m)"
  proof
    assume none: "map_of kvs ''id'' = None"
    have a: "msg_id m = JStr (''msg_'' @ uuid_hex)" using idm none by simp
    have b: "msg_id m2 \<noteq> msg_id m"
      if "transform_openai_to_anthropic loads u (JObj kvs) = Inr m2 \<and> u \<noteq> uuid_hex" for u m2
    proof -
      from that have "msg_id m2 = JStr (''msg_'' @ u)"
        using transform_id [of loads u kvs m2] none by simp
      with a that show ?thesis by simp
    qed
    have c: "truthy (msg_id m)" using a by simp
    from b c show "truthy (msg_id m) \<and>
        (\<forall>u m2. transform_openai_to_anthropic loads u (JObj kvs) = Inr m2 \<and> u \<noteq> uuid_hex
                 \<longrightarrow> msg_id m2 \<noteq> msg_id m)"
      by blast
  qed
  have model: "msg_model m = (case map_of kvs ''model'' of Some x \<Rightarrow> x | None \<Rightarrow> JStr ''unknown'')"
    by (rule transform_model [OF m])
  have us: "\<exists>uk. (case map_of kvs ''usage'' of Some u \<Rightarrow> u | None \<Rightarrow> JObj []) = JObj uk \<and>
        msg_usage m =
          Some \<lparr> input_tokens = (case map_of uk ''prompt_tokens'' of Some n \<Rightarrow> n | None \<Rightarrow> JInt 0),
                 output_tokens = (case map_of uk ''completion_tokens'' of Some n \<Rightarrow> n | None \<Rightarrow> JInt 0) \<rparr>"
    by (rule transform_usage [OF m])
  have empty: "(case map_of kvs ''choices'' of None \<Rightarrow> True | Some cs \<Rightarrow> \<not> truthy cs) \<longrightarrow> msg_content m = []"
  proof
    assume nc: "case map_of kvs ''choices'' of None \<Rightarrow> True | Some cs \<Rightarrow> \<not> truthy cs"
    have fc: "first_choice (JObj kvs) = Inr (JObj [])"
      using nc by (cases "map_of kvs ''choices''") (simp_all add: first_choice_def)
    from transform_content [OF m] fc have "message_blocks loads (JObj []) = Inr (msg_content m)"
      by auto
    then show "msg_content m = []" by (simp add: message_blocks_def)
  qed
  show ?thesis
    by (rule exI [of _ m]) (intro conjI m idm uniq model us empty)
qed

theorem C8_message_defaults_witness:
  "wf_response (JObj []) \<and>
   (\<exists>m. transform_openai_to_anthropic loads_sample ''ab'' (JObj []) = Inr m \<and>
        msg_id m = JStr ''msg_ab'' \<and> msg_model m = JStr ''unknown'' \<and>
        msg_usage m = Some \<lparr> input_tokens = JInt 0, output_tokens = JInt 0 \<rparr> \<and>
        msg_content m = [])"
proof -
  have wf: "wf_response (JObj [])" by (simp add: wf_response_def)
  from C8_message_defaults [OF wf, of loads_sample "''ab''"] wf show ?thesis
    by auto
qed

section \<open>The request mapper\<close>

lemma map_of_dict_set: "map_of (dict_set k v d) k' = (if k' = k then Some v else map_of d k')"
  by (simp add: dict_set_def update_conv')

lemma keys_dict_set: "fst ` set (dict_set k v d) = insert k (fst ` set d)"
  by (simp add: dict_set_def dom_update)

lemma str_items_strs: "list_all is_str xs \<Longrightarrow> \<exists>ss. str_items xs = Some ss"
proof (induction xs)
  case Nil
  then show ?case by simp
next
  case (Cons x xs)
  then obtain s where "x = JStr s" by (cases x) auto
  with Cons show ?case by auto
qed

lemma transform_block_wf:
  assumes "wf_block b"
  shows "transform_block dumps repr b =
     Inr (if is_text_block b then TextPart (block_field ''text'' JNull b)
          else if is_tool_use_block b then ToolCall (tool_call_entry dumps b)
          else if is_tool_result_block b then ToolResult (tool_result_message repr b)
          else Skipped)"
proof -
  from assms obtain kvs where b: "b = JObj kvs" by (cases b) (auto simp: wf_block_def)
  show ?thesis
    unfolding b transform_block_def is_text_block_def is_tool_use_block_def
      is_tool_result_block_def block_type_def block_field_def tool_call_entry_def
      tool_result_message_def
    by (cases "map_of kvs ''type''"; cases "map_of kvs ''text''") auto
qed

lemma text_block_str: "wf_block b \<Longrightarrow> is_text_block b \<Longrightarrow> is_str (block_field ''text'' JNull b)"
  by (cases b) (auto simp: wf_block_def is_text_block_def block_type_def block_field_def
      split: option.splits if_splits)

lemma collect_blocks_wf:
  assumes "list_all wf_block blocks"
  shows "collect_blocks dumps repr (tp, tc, tr) blocks =
     Inr (tp @ map (block_field ''text'' JNull) (filter is_text_block blocks),
          tc @ map (tool_call_entry dumps) (filter is_tool_use_block blocks),
          tr @ map (tool_result_message repr) (filter is_tool_result_block blocks))"
  using assms
proof (induction blocks arbitrary: tp tc tr)
  case Nil
  then show ?case by simp
next
  case (Cons b blocks)
  then have wb: "wf_block b" and rest: "list_all wf_block blocks" by simp_all
  have excl: "is_tool_result_block b \<Longrightarrow> \<not> is_text_block b \<and> \<not> is_tool_use_block b"
    "is_tool_use_block b \<Longrightarrow> \<not> is_text_block b"
    by (auto simp: is_tool_result_block_def is_text_block_def is_tool_use_block_def)
  show ?case
    using Cons.IH [OF rest] transform_block_wf [OF wb, of dumps repr] excl
    by auto
qed

lemma main_message_wf:
  assumes "list_all is_str texts"
  shows "\<exists>m. main_message role texts calls =
             Inr (if texts = [] \<and> calls = [] then [] else [JObj m]) \<and>
           map_of m ''role'' = Some role \<and> map_of m ''tool_call_id'' = None"
proof -
  from str_items_strs [OF assms] obtain ss where ss: "str_items texts = Some ss" by blast
  show ?thesis
  proof (cases "texts = [] \<and> calls = []")
    case True
    then have "main_message role texts calls = Inr []" by (simp add: main_message_def)
    with True show ?thesis by (intro exI [of _ "[(''role'', role)]"]) simp
  next
    case False
    then show ?thesis
      unfolding main_message_def py_join_nl_def
      by (auto simp: ss map_of_dict_set Let_def)
  qed
qed

lemma transform_content_blocks_wf:
  assumes "list_all wf_block blocks"
  shows "\<exists>main. main_message role
             (map (block_field ''text'' JNull) (filter is_text_block blocks))
             (map (tool_call_entry dumps) (filter is_tool_use_block blocks)) = Inr main \<and>
           transform_content_blocks dumps repr role blocks =
             Inr (let messages = main @ map (tool_result_message repr)
                                          (filter is_tool_result_block blocks)
                  in if length messages = 1 \<and> filter is_tool_result_block blocks \<noteq> []
                     then JList messages
                     else if length messages = 1 then messages ! 0
                     else if length messages > 1 then JList messages
                     else JObj [])"
proof -
  have strs: "list_all is_str (map (block_field ''text'' JNull) (filter is_text_block blocks))"
    using assms text_block_str by (induction blocks) auto
  from main_message_wf [OF strs] obtain main where
    "main_message role
       (map (block_field ''text'' JNull) (filter is_text_block blocks))
       (map (tool_call_entry dumps) (filter is_tool_use_block blocks)) = Inr main"
    by blast
  then show ?thesis
    unfolding transform_content_blocks_def
    using collect_blocks_wf [OF assms, of dumps repr "[]" "[]" "[]"]
    by (simp add: Let_def)
qed

lemma pick_messages:
  assumes "main = [] \<or> (\<exists>m. main = [JObj m] \<and> m \<noteq> [])"
    and "nonempty \<longleftrightarrow> trs \<noteq> []"
  shows "(case (let messages = main @ trs
                in if length messages = 1 \<and> nonempty then JList messages
                   else if length messages = 1 then messages ! 0
                   else if length messages > 1 then JList messages
                   else JObj []) of
            JList ms \<Rightarrow> if ms \<noteq> [] then Inr ms else Inr []
          | v \<Rightarrow> if truthy v then Inr [v] else Inr []) = (Inr (main @ trs) :: pyerr + json list)"
proof (cases "main @ trs")
  case Nil
  then show ?thesis by simp
next
  case (Cons x xs)
  show ?thesis
  proof (cases xs)
    case Nil
    with Cons assms show ?thesis
      by (cases "main = []") (auto simp: Let_def)
  next
    case (Cons y ys)
    with \<open>main @ trs = x # xs\<close> show ?thesis by (simp add: Let_def)
  qed
qed

lemma transform_message_blocks:
  assumes wf: "list_all wf_block blocks"
    and role: "map_of kvs ''role'' = Some r"
    and content: "map_of kvs ''content'' = Some (JList blocks)"
  shows "\<exists>m. main_message r
             (map (block_field ''text'' JNull) (filter is_text_block blocks))
             (map (tool_call_entry dumps) (filter is_tool_use_block blocks)) =
               Inr (if filter is_text_block blocks = [] \<and> filter is_tool_use_block blocks = []
                    then [] else [JObj m]) \<and>
           map_of m ''role'' = Some r \<and> map_of m ''tool_call_id'' = None \<and>
           transform_message dumps repr (JObj kvs) =
             Inr ((if filter is_text_block blocks = [] \<and> filter is_tool_use_block blocks = []
                   then [] else [JObj m]) @
                  map (tool_result_message repr) (filter is_tool_result_block blocks))"
proof -
  let ?texts = "map (block_field ''text'' JNull) (filter is_text_block blocks)"
  let ?calls = "map (tool_call_entry dumps) (filter is_tool_use_block blocks)"
  let ?trs = "map (tool_result_message repr) (filter is_tool_result_block blocks)"
  have strs: "list_all is_str ?texts"
    using wf text_block_str by (induction blocks) auto
  from main_message_wf [OF strs, of r ?calls] obtain m where
    mm: "main_message r ?texts ?calls = Inr (if ?texts = [] \<and> ?calls = [] then [] else [JObj m])"
    and mr: "map_of m ''role'' = Some r" and mt: "map_of m ''tool_call_id'' = None"
    by blast
  define main where "main = (if ?texts = [] \<and> ?calls = [] then [] else [JObj m])"
  have mne: "m \<noteq> []" using mr by auto
  then have shape: "main = [] \<or> (\<exists>m. main = [JObj m] \<and> m \<noteq> [])"
    by (auto simp: main_def)
  from transform_content_blocks_wf [OF wf, of r dumps repr] mm
  have tcb: "transform_content_blocks dumps repr r blocks =
             Inr (let messages = main @ ?trs
                  in if length messages = 1 \<and> filter is_tool_result_block blocks \<noteq> []
                     then JList messages
                     else if length messages = 1 then messages ! 0
                     else if length messages > 1 then JList messages
                     else JObj [])"
    unfolding main_def by auto
  have tm: "transform_message dumps repr (JObj kvs) =
      (case (let messages = main @ ?trs
                in if length messages = 1 \<and> filter is_tool_result_block blocks \<noteq> []
                   then JList messages
                   else if length messages = 1 then messages ! 0
                   else if length messages > 1 then JList messages
                   else JObj []) of
            JList ms \<Rightarrow> if ms \<noteq> [] then Inr ms else Inr []
          | v \<Rightarrow> if truthy v then Inr [v] else Inr [])"
    unfolding transform_message_def using role content tcb
    by (simp split: json.splits)
  have "transform_message dumps repr (JObj kvs) = Inr (main @ ?trs)"
    unfolding tm by (rule pick_messages [OF shape]) simp
  with mm mr mt show ?thesis
    unfolding main_def by (intro exI [of _ m]) simp
qed

lemma transform_message_wf:
  assumes "wf_msg msg"
  shows "\<exists>new. transform_message dumps repr msg = Inr new"
proof -
  from assms obtain kvs where msg: "msg = JObj kvs" by (cases msg) (auto simp: wf_msg_def)
  from assms msg obtain r c where r: "map_of kvs ''role'' = Some r"
    and c: "map_of kvs ''content'' = Some c"
    by (auto simp: wf_msg_def split: option.splits)
  show ?thesis
  proof (cases c)
    case (JList blocks)
    with assms msg c have "list_all wf_block blocks" by (simp add: wf_msg_def)
    from transform_message_blocks [OF this r, of dumps repr] c JList msg
    show ?thesis by blast
  qed (use r c msg in \<open>simp_all add: transform_message_def\<close>)
qed

lemma messages_loop_wf:
  "list_all wf_msg ms \<Longrightarrow> \<exists>out. messages_loop dumps repr acc ms = Inr out"
proof (induction ms arbitrary: acc)
  case Nil
  then show ?case by simp
next
  case (Cons m ms)
  then obtain new where "transform_message dumps repr m = Inr new"
    using transform_message_wf [of m dumps repr] by auto
  with Cons show ?case by simp
qed

lemma tools_loop_wf:
  "list_all is_dict ts \<Longrightarrow> \<exists>out. tools_loop acc ts = Inr out"
proof (induction ts arbitrary: acc)
  case Nil
  then show ?case by simp
next
  case (Cons t ts)
  then obtain kvs where "t = JObj kvs" using is_dict_obj by auto
  then have "\<exists>x. transform_tool t = Inr x" by (simp add: transform_tool_def)
  with Cons show ?case by auto
qed

lemma copy_key_obj:
  "copy_key src dst (JObj kvs) d =
     Inr (case map_of kvs src of Some v \<Rightarrow> dict_set dst v d | None \<Rightarrow> d)"
  by (cases "map_of kvs src") (simp_all add: copy_key_def)

lemma set_tool_choice_obj:
  "set_if_truthy ''tool_choice'' (\<lambda>v. Inr (transform_tool_choice v)) (JObj kvs) d =
     Inr (case map_of kvs ''tool_choice'' of
            Some v \<Rightarrow> if truthy v then dict_set ''tool_choice'' (transform_tool_choice v) d else d
          | None \<Rightarrow> d)"
  by (cases "map_of kvs ''tool_choice''") (simp_all add: set_if_truthy_def)

lemma set_tools_Inr:
  "set_if_truthy ''tools'' f (JObj kvs) d = Inr d' \<Longrightarrow> d' = d \<or> (\<exists>w. d' = dict_set ''tools'' w d)"
  by (cases "map_of kvs ''tools''") (auto simp: set_if_truthy_def pbind_eq_Inr split: if_splits)

lemma set_tools_wf:
  assumes "case map_of kvs ''tools'' of
             None \<Rightarrow> True
           | Some t \<Rightarrow>
               if truthy t then (case t of JList ts \<Rightarrow> list_all is_dict ts | _ \<Rightarrow> False)
               else True"
  shows "\<exists>d'. set_if_truthy ''tools'' transform_tools_to_functions (JObj kvs) d = Inr d'"
proof (cases "map_of kvs ''tools''")
  case None
  then show ?thesis by (simp add: set_if_truthy_def)
next
  case (Some t)
  show ?thesis
  proof (cases "truthy t")
    case False
    with Some show ?thesis by (simp add: set_if_truthy_def)
  next
    case True
    with assms Some have "case t of JList ts \<Rightarrow> list_all is_dict ts | _ \<Rightarrow> False" by simp
    then obtain ts where t: "t = JList ts" and "list_all is_dict ts" by (cases t) auto
    then obtain out where "tools_loop [] ts = Inr out" using tools_loop_wf by blast
    with Some True t show ?thesis
      by (simp add: set_if_truthy_def transform_tools_to_functions_def)
  qed
qed

lemma transform_request_unfold:
  assumes "transform_anthropic_to_openai dumps repr params = Inr out"
  shows "\<exists>kvs model messages p5 p6.
     params = JObj kvs \<and>
     p5 = (let p0 = dict_set ''messages'' (JList messages) (dict_set ''model'' model []);
               p1 = (case map_of kvs ''max_tokens'' of Some v \<Rightarrow> dict_set ''max_tokens'' v p0 | None \<Rightarrow> p0);
               p2 = (case map_of kvs ''temperature'' of Some v \<Rightarrow> dict_set ''temperature'' v p1 | None \<Rightarrow> p1);
               p3 = (case map_of kvs ''top_p'' of Some v \<Rightarrow> dict_set ''top_p'' v p2 | None \<Rightarrow> p2);
               p4 = (case map_of kvs ''stop_sequences'' of Some v \<Rightarrow> dict_set ''stop'' v p3 | None \<Rightarrow> p3)
           in (case map_of kvs ''stream'' of Some v \<Rightarrow> dict_set ''stream'' v p4 | None \<Rightarrow> p4)) \<and>
     (p6 = p5 \<or> (\<exists>w. p6 = dict_set ''tools'' w p5)) \<and>
     out = (case map_of kvs ''tool_choice'' of
              Some v \<Rightarrow> if truthy v then dict_set ''tool_choice'' (transform_tool_choice v) p6 else p6
            | None \<Rightarrow> p6)"
proof -
  from assms obtain kvs where p: "params = JObj kvs"
    by (cases params) (auto simp: transform_anthropic_to_openai_def)
  from assms show ?thesis
    unfolding transform_anthropic_to_openai_def p copy_key_obj set_tool_choice_obj
    apply (clarsimp simp: pbind_eq_Inr Let_def)
    apply (drule set_tools_Inr)
    apply blast
    done
qed

lemma transform_request_returns:
  assumes "wf_request params"
  shows "\<exists>out. transform_anthropic_to_openai dumps repr params = Inr out"
proof -
  from assms obtain kvs where p: "params = JObj kvs"
    by (cases params) (auto simp: wf_request_def)
  from assms p obtain model where model: "map_of kvs ''model'' = Some model"
    by (auto simp: wf_request_def)
  from assms p have "case map_of kvs ''messages'' of
             Some (JList ms) \<Rightarrow> list_all wf_msg ms | _ \<Rightarrow> False"
    by (simp add: wf_request_def)
  then obtain ms where ms: "map_of kvs ''messages'' = Some (JList ms)" and wms: "list_all wf_msg ms"
    by (auto split: option.splits json.splits)
  have "\<exists>messages. transform_messages dumps repr (JList ms)
       (case map_of kvs ''system'' of Some v \<Rightarrow> v | None \<Rightarrow> JNull) = Inr messages"
    unfolding transform_messages_def using messages_loop_wf [OF wms] by simp
  then obtain messages where messages:
    "transform_messages dumps repr (JList ms)
       (case map_of kvs ''system'' of Some v \<Rightarrow> v | None \<Rightarrow> JNull) = Inr messages"
    by blast
  from assms p have "case map_of kvs ''tools'' of
             None \<Rightarrow> True
           | Some t \<Rightarrow>
               if truthy t then (case t of JList ts \<Rightarrow> list_all is_dict ts | _ \<Rightarrow> False)
               else True"
    by (simp add: wf_request_def)
  from set_tools_wf [OF this] model ms messages show ?thesis
    unfolding transform_anthropic_to_openai_def p copy_key_obj set_tool_choice_obj
    by (simp add: pbind_eq_Inr)
qed

lemma messages_loop_append:
  "messages_loop dumps repr acc (xs @ ys) =
     pbind (messages_loop dumps repr acc xs) (\<lambda>a. messages_loop dumps repr a ys)"
proof (induction xs arbitrary: acc)
  case Nil
  then show ?case by simp
next
  case (Cons x xs)
  then show ?case by (cases "transform_message dumps repr x") simp_all
qed

lemma messages_loop_acc:
  "messages_loop dumps repr acc ms =
     pbind (messages_loop dumps repr [] ms) (\<lambda>new. Inr (acc @ new))"
proof (induction ms arbitrary: acc)
  case Nil
  then show ?case by simp
next
  case (Cons m ms)
  show ?case
  proof (cases "transform_message dumps repr m")
    case (Inl e)
    then show ?thesis by simp
  next
    case (Inr new)
    have a: "messages_loop dumps repr (acc @ new) ms =
        pbind (messages_loop dumps repr [] ms) (\<lambda>n. Inr ((acc @ new) @ n))"
      by (rule Cons.IH)
    have b: "messages_loop dumps repr ([] @ new) ms =
        pbind (messages_loop dumps repr [] ms) (\<lambda>n. Inr (([] @ new) @ n))"
      by (rule Cons.IH)
    show ?thesis
      using Inr a b by (cases "messages_loop dumps repr [] ms") simp_all
  qed
qed

lemma transform_request_messages:
  assumes "transform_anthropic_to_openai dumps repr (JObj kvs) = Inr out"
  shows "\<exists>ms msgs. map_of kvs ''messages'' = Some ms \<and>
           transform_messages dumps repr ms
             (case map_of kvs ''system'' of Some v \<Rightarrow> v | None \<Rightarrow> JNull) = Inr msgs \<and>
           map_of out ''messages'' = Some (JList msgs)"
proof -
  from assms obtain model where m0: "py_item (JObj kvs) ''model'' = Inr model"
    and r1: "pbind (py_item (JObj kvs) ''messages'') (\<lambda>ms.
     pbind (py_get (JObj kvs) ''system'' JNull) (\<lambda>system.
     pbind (transform_messages dumps repr ms system) (\<lambda>messages.
     pbind (copy_key ''max_tokens'' ''max_tokens'' (JObj kvs)
              (dict_set ''messages'' (JList messages) (dict_set ''model'' model []))) (\<lambda>p1.
     pbind (copy_key ''temperature'' ''temperature'' (JObj kvs) p1) (\<lambda>p2.
     pbind (copy_key ''top_p'' ''top_p'' (JObj kvs) p2) (\<lambda>p3.
     pbind (copy_key ''stop_sequences'' ''stop'' (JObj kvs) p3) (\<lambda>p4.
     pbind (copy_key ''stream'' ''stream'' (JObj kvs) p4) (\<lambda>p5.
     pbind (set_if_truthy ''tools'' transform_tools_to_functions (JObj kvs) p5) (\<lambda>p6.
       set_if_truthy ''tool_choice'' (\<lambda>v. Inr (transform_tool_choice v)) (JObj kvs) p6))))))))) = Inr out"
    unfolding transform_anthropic_to_openai_def pbind_eq_Inr by blast
  from r1 obtain ms where ms: "py_item (JObj kvs) ''messages'' = Inr ms"
    and r2: "pbind (py_get (JObj kvs) ''system'' JNull) (\<lambda>system.
     pbind (transform_messages dumps repr ms system) (\<lambda>messages.
     pbind (copy_key ''max_tokens'' ''max_tokens'' (JObj kvs)
              (dict_set ''messages'' (JList messages) (dict_set ''model'' model []))) (\<lambda>p1.
     pbind (copy_key ''temperature'' ''temperature'' (JObj kvs) p1) (\<lambda>p2.
     pbind (copy_key ''top_p'' ''top_p'' (JObj kvs) p2) (\<lambda>p3.
     pbind (copy_key ''stop_sequences'' ''stop'' (JObj kvs) p3) (\<lambda>p4.
     pbind (copy_key ''stream'' ''stream'' (JObj kvs) p4) (\<lambda>p5.
     pbind (set_if_truthy ''tools'' transform_tools_to_functions (JObj kvs) p5) (\<lambda>p6.
       set_if_truthy ''tool_choice'' (\<lambda>v. Inr (transform_tool_choice v)) (JObj kvs) p6)))))))) = Inr out"
    unfolding pbind_eq_Inr by blast
  define sys where "sys = (case map_of kvs ''system'' of Some v \<Rightarrow> v | None \<Rightarrow> JNull)"
  have g: "py_get (JObj kvs) ''system'' JNull = Inr sys" by (simp add: sys_def)
  from r2 [unfolded g pbind_Inr] obtain msgs where
    tm: "transform_messages dumps repr ms sys = Inr msgs"
    and r3: "pbind (copy_key ''max_tokens'' ''max_tokens'' (JObj kvs)
              (dict_set ''messages'' (JList msgs) (dict_set ''model'' model []))) (\<lambda>p1.
     pbind (copy_key ''temperature'' ''temperature'' (JObj kvs) p1) (\<lambda>p2.
     pbind (copy_key ''top_p'' ''top_p'' (JObj kvs) p2) (\<lambda>p3.
     pbind (copy_key ''stop_sequences'' ''stop'' (JObj kvs) p3) (\<lambda>p4.
     pbind (copy_key ''stream'' ''stream'' (JObj kvs) p4) (\<lambda>p5.
     pbind (set_if_truthy ''tools'' transform_tools_to_functions (JObj kvs) p5) (\<lambda>p6.
       set_if_truthy ''tool_choice'' (\<lambda>v. Inr (transform_tool_choice v)) (JObj kvs) p6)))))) = Inr out"
    unfolding pbind_eq_Inr by blast
  define p0 where "p0 = dict_set ''messages'' (JList msgs) (dict_set ''model'' model [])"
  define p1 where "p1 = (case map_of kvs ''max_tokens'' of Some v \<Rightarrow> dict_set ''max_tokens'' v p0 | None \<Rightarrow> p0)"
  define p2 where "p2 = (case map_of kvs ''temperature'' of Some v \<Rightarrow> dict_set ''temperature'' v p1 | None \<Rightarrow> p1)"
  define p3 where "p3 = (case map_of kvs ''top_p'' of Some v \<Rightarrow> dict_set ''top_p'' v p2 | None \<Rightarrow> p2)"
  define p4 where "p4 = (case map_of kvs ''stop_sequences'' of Some v \<Rightarrow> dict_set ''stop'' v p3 | None \<Rightarrow> p3)"
  define p5 where "p5 = (case map_of kvs ''stream'' of Some v \<Rightarrow> dict_set ''stream'' v p4 | None \<Rightarrow> p4)"
  from r3 obtain p6 where
    t: "set_if_truthy ''tools'' transform_tools_to_functions (JObj kvs) p5 = Inr p6"
    and o: "set_if_truthy ''tool_choice'' (\<lambda>v. Inr (transform_tool_choice v)) (JObj kvs) p6 = Inr out"
    unfolding copy_key_obj pbind_Inr p0_def [symmetric] p1_def [symmetric] p2_def [symmetric]
      p3_def [symmetric] p4_def [symmetric] p5_def [symmetric] pbind_eq_Inr
    by blast
  have m0': "map_of p0 ''messages'' = Some (JList msgs)"
    by (simp add: p0_def map_of_dict_set)
  have m1: "map_of p1 ''messages'' = Some (JList msgs)"
    unfolding p1_def using m0' by (cases "map_of kvs ''max_tokens''") (simp_all add: map_of_dict_set)
  have m2: "map_of p2 ''messages'' = Some (JList msgs)"
    unfolding p2_def using m1 by (cases "map_of kvs ''temperature''") (simp_all add: map_of_dict_set)
  have m3: "map_of p3 ''messages'' = Some (JList msgs)"
    unfolding p3_def using m2 by (cases "map_of kvs ''top_p''") (simp_all add: map_of_dict_set)
  have m4: "map_of p4 ''messages'' = Some (JList msgs)"
    unfolding p4_def using m3 by (cases "map_of kvs ''stop_sequences''") (simp_all add: map_of_dict_set)
  have m5: "map_of p5 ''messages'' = Some (JList msgs)"
    unfolding p5_def using m4 by (cases "map_of kvs ''stream''") (simp_all add: map_of_dict_set)
  have m6: "map_of p6 ''messages'' = Some (JList msgs)"
  proof -
    from set_tools_Inr [OF t] show ?thesis
    proof (elim disjE exE)
      assume "p6 = p5"
      with m5 show ?thesis by simp
    next
      fix w
      assume "p6 = dict_set ''tools'' w p5"
      with m5 show ?thesis by (simp add: map_of_dict_set)
    qed
  qed
  have m7: "map_of out ''messages'' = Some (JList msgs)"
  proof (cases "map_of kvs ''tool_choice''")
    case None
    with o m6 show ?thesis by (simp add: set_tool_choice_obj)
  next
    case (Some v)
    with o m6 show ?thesis
      by (cases "truthy v") (auto simp: set_tool_choice_obj map_of_dict_set)
  qed
  from ms have "map_of kvs ''messages'' = Some ms"
    by (cases "map_of kvs ''messages''") simp_all
  with tm m7 show ?thesis unfolding sys_def by blast
qed

lemma keys_case_set:
  "fst ` set (case x of Some v \<Rightarrow> dict_set k v d | None \<Rightarrow> d) \<subseteq> insert k (fst ` set d)"
  by (cases x) (simp_all add: keys_dict_set subset_insertI)

lemma transform_request_keys:
  assumes "transform_anthropic_to_openai dumps repr params = Inr out"
  shows "fst ` set out \<subseteq>
           {''tool_choice'', ''tools'', ''stream'', ''stop'', ''top_p'', ''temperature'',
            ''max_tokens'', ''messages'', ''model''}"
proof -
  from transform_request_unfold [OF assms] obtain kvs model messages p5 p6 where
    p5: "p5 = (let p0 = dict_set ''messages'' (JList messages) (dict_set ''model'' model []);
               p1 = (case map_of kvs ''max_tokens'' of Some v \<Rightarrow> dict_set ''max_tokens'' v p0 | None \<Rightarrow> p0);
               p2 = (case map_of kvs ''temperature'' of Some v \<Rightarrow> dict_set ''temperature'' v p1 | None \<Rightarrow> p1);
               p3 = (case map_of kvs ''top_p'' of Some v \<Rightarrow> dict_set ''top_p'' v p2 | None \<Rightarrow> p2);
               p4 = (case map_of kvs ''stop_sequences'' of Some v \<Rightarrow> dict_set ''stop'' v p3 | None \<Rightarrow> p3)
           in (case map_of kvs ''stream'' of Some v \<Rightarrow> dict_set ''stream'' v p4 | None \<Rightarrow> p4))"
    and p6: "p6 = p5 \<or> (\<exists>w. p6 = dict_set ''tools'' w p5)"
    and out: "out = (case map_of kvs ''tool_choice'' of
              Some v \<Rightarrow> if truthy v then dict_set ''tool_choice'' (transform_tool_choice v) p6 else p6
            | None \<Rightarrow> p6)"
    by blast
  define p0 where "p0 = dict_set ''messages'' (JList messages) (dict_set ''model'' model [])"
  define p1 where "p1 = (case map_of kvs ''max_tokens'' of Some v \<Rightarrow> dict_set ''max_tokens'' v p0 | None \<Rightarrow> p0)"
  define p2 where "p2 = (case map_of kvs ''temperature'' of Some v \<Rightarrow> dict_set ''temperature'' v p1 | None \<Rightarrow> p1)"
  define p3 where "p3 = (case map_of kvs ''top_p'' of Some v \<Rightarrow> dict_set ''top_p'' v p2 | None \<Rightarrow> p2)"
  define p4 where "p4 = (case map_of kvs ''stop_sequences'' of Some v \<Rightarrow> dict_set ''stop'' v p3 | None \<Rightarrow> p3)"
  have p5': "p5 = (case map_of kvs ''stream'' of Some v \<Rightarrow> dict_set ''stream'' v p4 | None \<Rightarrow> p4)"
    unfolding p5 p0_def p1_def p2_def p3_def p4_def by (simp add: Let_def)
  have k0: "fst ` set p0 \<subseteq> {''messages'', ''model''}"
    unfolding p0_def keys_dict_set by simp
  have k1: "fst ` set p1 \<subseteq> insert ''max_tokens'' (fst ` set p0)"
    unfolding p1_def by (rule keys_case_set)
  have k2: "fst ` set p2 \<subseteq> insert ''temperature'' (fst ` set p1)"
    unfolding p2_def by (rule keys_case_set)
  have k3: "fst ` set p3 \<subseteq> insert ''top_p'' (fst ` set p2)"
    unfolding p3_def by (rule keys_case_set)
  have k4: "fst ` set p4 \<subseteq> insert ''stop'' (fst ` set p3)"
    unfolding p4_def by (rule keys_case_set)
  have k5: "fst ` set p5 \<subseteq> insert ''stream'' (fst ` set p4)"
    unfolding p5' by (rule keys_case_set)
  have k6: "fst ` set p6 \<subseteq> insert ''tools'' (fst ` set p5)"
  proof -
    from p6 show ?thesis
    proof (elim disjE exE)
      assume "p6 = p5"
      then show ?thesis by (simp add: subset_insertI)
    next
      fix w
      assume "p6 = dict_set ''tools'' w p5"
      then show ?thesis by (simp add: keys_dict_set)
    qed
  qed
  have k7: "fst ` set out \<subseteq> insert ''tool_choice'' (fst ` set p6)"
  proof (cases "map_of kvs ''tool_choice''")
    case None
    then show ?thesis by (simp add: out subset_insertI)
  next
    case (Some v)
    then show ?thesis by (simp add: out keys_dict_set subset_insertI)
  qed
  note s1 = order_trans [OF k1 insert_mono [OF k0]]
  note s2 = order_trans [OF k2 insert_mono [OF s1]]
  note s3 = order_trans [OF k3 insert_mono [OF s2]]
  note s4 = order_trans [OF k4 insert_mono [OF s3]]
  note s5 = order_trans [OF k5 insert_mono [OF s4]]
  note s6 = order_trans [OF k6 insert_mono [OF s5]]
  show ?thesis by (rule order_trans [OF k7 insert_mono [OF s6]])
qed

lemma not_key_map_of: "k \<notin> fst ` set d \<Longrightarrow> map_of d k = None"
  by (simp add: map_of_eq_None_iff)

lemma transform_request_tool_choice:
  assumes "transform_anthropic_to_openai dumps repr (JObj kvs) = Inr out"
  shows "map_of out ''tool_choice'' =
           (case map_of kvs ''tool_choice'' of
              Some v \<Rightarrow> if truthy v then Some (transform_tool_choice v) else None
            | None \<Rightarrow> None)"
proof -
  from transform_request_unfold [OF assms] obtain model messages p5 p6 where
    p5: "p5 = (let p0 = dict_set ''messages'' (JList messages) (dict_set ''model'' model []);
               p1 = (case map_of kvs ''max_tokens'' of Some v \<Rightarrow> dict_set ''max_tokens'' v p0 | None \<Rightarrow> p0);
               p2 = (case map_of kvs ''temperature'' of Some v \<Rightarrow> dict_set ''temperature'' v p1 | None \<Rightarrow> p1);
               p3 = (case map_of kvs ''top_p'' of Some v \<Rightarrow> dict_set ''top_p'' v p2 | None \<Rightarrow> p2);
               p4 = (case map_of kvs ''stop_sequences'' of Some v \<Rightarrow> dict_set ''stop'' v p3 | None \<Rightarrow> p3)
           in (case map_of kvs ''stream'' of Some v \<Rightarrow> dict_set ''stream'' v p4 | None \<Rightarrow> p4))"
    and p6: "p6 = p5 \<or> (\<exists>w. p6 = dict_set ''tools'' w p5)"
    and out: "out = (case map_of kvs ''tool_choice'' of
              Some v \<Rightarrow> if truthy v then dict_set ''tool_choice'' (transform_tool_choice v) p6 else p6
            | None \<Rightarrow> p6)"
    by blast
  have "map_of p5 ''tool_choice'' = None"
    unfolding p5 Let_def by (simp add: map_of_dict_set split: option.splits)
  with p6 have n6: "map_of p6 ''tool_choice'' = None"
    by (auto simp: map_of_dict_set)
  show ?thesis
    unfolding out using n6
    by (cases "map_of kvs ''tool_choice''") (simp_all add: map_of_dict_set)
qed

lemma transform_tool_choice_spec: "transform_tool_choice tc = spec_tool_choice tc"
proof (cases tc)
  case (JObj kvs)
  then show ?thesis
    by (cases "map_of kvs ''type''"; cases "map_of kvs ''name''")
      (auto simp: transform_tool_choice_def spec_tool_choice_def block_type_def block_field_def)
qed (auto simp: transform_tool_choice_def spec_tool_choice_def block_type_def block_field_def)

text \<open>
  C10. Whatever the request, the keys of the dict that \<open>transform_anthropic_to_openai\<close>
  returns are among \<open>model\<close>, \<open>messages\<close>, \<open>max_tokens\<close>, \<open>temperature\<close>,
  \<open>top_p\<close>, \<open>stop\<close>, \<open>stream\<close>, \<open>tools\<close> and \<open>tool_choice\<close>: no other
  key of the request is copied. On a well-formed request the function returns.
\<close>

theorem C10_target_keys:
  "(\<forall>out. transform_anthropic_to_openai dumps repr params = Inr out \<longrightarrow>
       fst ` set out \<subseteq>
         {''tool_choice'', ''tools'', ''stream'', ''stop'', ''top_p'', ''temperature'',
          ''max_tokens'', ''messages'', ''model''}) \<and>
   (wf_request params \<longrightarrow> (\<exists>out. transform_anthropic_to_openai dumps repr params = Inr out))"
  using transform_request_keys [of dumps repr params]
    transform_request_returns [of params dumps repr]
  by blast

theorem C10_target_keys_witness:
  "wf_request (JObj [(''model'', JStr ''m''),
                     (''messages'', JList [JObj [(''role'', JStr ''user''), (''content'', JStr ''hi'')]]),
                     (''max_tokens'', JInt 5),
                     (''metadata'', JStr ''x'')]) \<and>
   transform_anthropic_to_openai dumps_sample repr_sample
     (JObj [(''model'', JStr ''m''),
            (''messages'', JList [JObj [(''role'', JStr ''user''), (''content'', JStr ''hi'')]]),
            (''max_tokens'', JInt 5),
            (''metadata'', JStr ''x'')]) =
     Inr [(''model'', JStr ''m''),
          (''messages'', JList [JObj [(''role'', JStr ''user''), (''content'', JStr ''hi'')]]),
          (''max_tokens'', JInt 5)] \<and>
   fst ` set [(''model'', JStr ''m''),
          (''messages'', JList [JObj [(''role'', JStr ''user''), (''content'', JStr ''hi'')]]),
          (''max_tokens'', JInt 5)] \<subseteq>
         {''tool_choice'', ''tools'', ''stream'', ''stop'', ''top_p'', ''temperature'',
          ''max_tokens'', ''messages'', ''model''}"
proof -
  let ?P = "JObj [(''model'', JStr ''m''),
                     (''messages'', JList [JObj [(''role'', JStr ''user''), (''content'', JStr ''hi'')]]),
                     (''max_tokens'', JInt 5),
                     (''metadata'', JStr ''x'')]"
  let ?O = "[(''model'', JStr ''m''),
          (''messages'', JList [JObj [(''role'', JStr ''user''), (''content'', JStr ''hi'')]]),
          (''max_tokens'', JInt 5)]"
  have wf: "wf_request ?P" by (simp add: wf_request_def wf_msg_def)
  have ev: "transform_anthropic_to_openai dumps_sample repr_sample ?P = Inr ?O"
    by (simp add: transform_anthropic_to_openai_def transform_messages_def transform_message_def
        copy_key_def set_if_truthy_def dict_set_def)
  from C10_target_keys [of dumps_sample repr_sample ?P] ev
  have "fst ` set ?O \<subseteq>
         {''tool_choice'', ''tools'', ''stream'', ''stop'', ''top_p'', ''temperature'',
          ''max_tokens'', ''messages'', ''model''}"
    by blast
  with wf ev show ?thesis by blast
qed

text \<open>
  C7, as amended. On a well-formed request whose \<open>tool_choice\<close> is present and true
  in a condition, the target request's \<open>tool_choice\<close> is the value the specification
  gives: \<open>auto\<close> for \<open>auto\<close>, \<open>required\<close> for \<open>any\<close> and \<open>required\<close>,
  \<open>auto\<close> for any other string, the function object for a tool object with a name,
  and \<open>auto\<close> for anything else. When \<open>tool_choice\<close> is absent, or present but
  false in a condition (\<open>None\<close>, the empty string, the empty dict), the target
  request has no \<open>tool_choice\<close> key.
\<close>

theorem C7_tool_choice:
  assumes "wf_request (JObj kvs)"
  shows "\<exists>out. transform_anthropic_to_openai dumps repr (JObj kvs) = Inr out \<and>
           map_of out ''tool_choice'' =
             (case map_of kvs ''tool_choice'' of
                Some tc \<Rightarrow> if truthy tc then Some (spec_tool_choice tc) else None
              | None \<Rightarrow> None)"
proof -
  from transform_request_returns [OF assms] obtain out where
    out: "transform_anthropic_to_openai dumps repr (JObj kvs) = Inr out" by blast
  from transform_request_tool_choice [OF out, unfolded transform_tool_choice_spec] out
  show ?thesis by blast
qed

theorem C7_tool_choice_witness:
  "wf_request (JObj [(''model'', JStr ''m''), (''messages'', JList []),
                     (''tool_choice'', JObj [(''type'', JStr ''tool''), (''name'', JStr ''f'')])]) \<and>
   (\<exists>out. transform_anthropic_to_openai dumps_sample repr_sample
            (JObj [(''model'', JStr ''m''), (''messages'', JList []),
                   (''tool_choice'', JObj [(''type'', JStr ''tool''), (''name'', JStr ''f'')])]) = Inr out \<and>
          map_of out ''tool_choice'' =
            Some (JObj [(''type'', JStr ''function''), (''function'', JObj [(''name'', JStr ''f'')])]))"
proof -
  let ?P = "[(''model'', JStr ''m''), (''messages'', JList []),
             (''tool_choice'', JObj [(''type'', JStr ''tool''), (''name'', JStr ''f'')])]"
  have wf: "wf_request (JObj ?P)" by (simp add: wf_request_def)
  have sp: "spec_tool_choice (JObj [(''type'', JStr ''tool''), (''name'', JStr ''f'')]) =
      JObj [(''type'', JStr ''function''), (''function'', JObj [(''name'', JStr ''f'')])]"
    by (simp add: spec_tool_choice_def block_type_def block_field_def)
  from C7_tool_choice [OF wf, of dumps_sample repr_sample] sp wf show ?thesis
    by simp
qed

text \<open>
  C7 as stated fails: with the empty dict or the empty string as \<open>tool_choice\<close> the
  target request has no \<open>tool_choice\<close>, where the specification gives \<open>auto\<close>.
\<close>

theorem C7_tool_choice_counterexample:
  "transform_anthropic_to_openai dumps_sample repr_sample
     (JObj [(''model'', JStr ''m''), (''messages'', JList []), (''tool_choice'', JObj [])]) =
     Inr [(''model'', JStr ''m''), (''messages'', JList [])] \<and>
   transform_anthropic_to_openai dumps_sample repr_sample
     (JObj [(''model'', JStr ''m''), (''messages'', JList []), (''tool_choice'', JStr [])]) =
     Inr [(''model'', JStr ''m''), (''messages'', JList [])] \<and>
   spec_tool_choice (JObj []) = JStr ''auto'' \<and>
   spec_tool_choice (JStr []) = JStr ''auto''"
  by (simp add: transform_anthropic_to_openai_def transform_messages_def
      copy_key_def set_if_truthy_def dict_set_def spec_tool_choice_def block_type_def
      block_field_def)



section \<open>The error mapper\<close>

lemma error_message_obj:
  "error_message repr (JObj kvs) =
     Inr (case map_of kvs ''error'' of
            Some e \<Rightarrow>
              (case e of
                 JObj ek \<Rightarrow> (case map_of ek ''message'' of Some m \<Rightarrow> m | None \<Rightarrow> JStr ''Unknown error'')
               | _ \<Rightarrow> JStr (py_str repr e))
          | None \<Rightarrow> (case map_of kvs ''message'' of Some m \<Rightarrow> m | None \<Rightarrow> JStr ''Unknown error''))"
proof (cases "kvs = []")
  case True
  then show ?thesis by (simp add: error_message_def)
next
  case False
  show ?thesis
  proof (cases "map_of kvs ''error''")
    case None
    with False show ?thesis
      by (cases "map_of kvs ''message''") (simp_all add: error_message_def)
  next
    case (Some e)
    with False show ?thesis
      by (cases e) (simp_all add: error_message_def)
  qed
qed

text \<open>
  C9, as amended. For a body that is absent or a dict,
  \<open>map_openai_error_to_anthropic\<close> returns one error whose class is given by the
  status (400, 401, 403, 404, 409, 422, 429, 500 and above, anything else), whose
  response is the one passed in, and whose message is: with an \<open>error\<close> key in the
  body, the \<open>message\<close> of that error when it is a dict (\<open>Unknown error\<close> when it has
  none) and the error as a string when it is not a dict; without an \<open>error\<close> key, the
  body's \<open>message\<close>; otherwise \<open>Unknown error\<close>. The status code itself is not kept
  in the error.
\<close>

theorem C9_error_mapping:
  assumes "error_data = JNull \<or> is_dict error_data"
  shows "map_openai_error_to_anthropic repr status_code error_data response =
     Inr \<lparr> err_class =
             (if status_code = 400 then BadRequestError
              else if status_code = 401 then AuthenticationError
              else if status_code = 403 then PermissionDeniedError
              else if status_code = 404 then NotFoundError
              else if status_code = 409 then ConflictError
              else if status_code = 422 then UnprocessableEntityError
              else if status_code = 429 then RateLimitError
              else if status_code \<ge> 500 then InternalServerError
              else APIError),
           err_message =
             (case error_data of
                JObj kvs \<Rightarrow>
                  (case map_of kvs ''error'' of
                     Some e \<Rightarrow>
                       (case e of
                          JObj ek \<Rightarrow>
                            (case map_of ek ''message'' of
                               Some m \<Rightarrow> m
                             | None \<Rightarrow> JStr ''Unknown error'')
                        | _ \<Rightarrow> JStr (py_str repr e))
                   | None \<Rightarrow>
                       (case map_of kvs ''message'' of
                          Some m \<Rightarrow> m
                        | None \<Rightarrow> JStr ''Unknown error''))
              | _ \<Rightarrow> JStr ''Unknown error''),
           err_response = response \<rparr>"
proof (cases "error_data = JNull")
  case True
  then show ?thesis
    by (simp add: map_openai_error_to_anthropic_def error_message_def error_class_of_status_def)
next
  case False
  with assms obtain kvs where "error_data = JObj kvs" by (cases error_data) auto
  then show ?thesis
    by (simp add: map_openai_error_to_anthropic_def error_message_obj error_class_of_status_def)
qed

theorem C9_error_mapping_witness:
  "(JObj [(''error'', JObj [(''message'', JStr ''teapot'')])] = JNull \<or>
    is_dict (JObj [(''error'', JObj [(''message'', JStr ''teapot'')])])) \<and>
   map_openai_error_to_anthropic repr_sample 418
     (JObj [(''error'', JObj [(''message'', JStr ''teapot'')])]) (None :: unit option) =
     Inr \<lparr> err_class = APIError, err_message = JStr ''teapot'', err_response = None \<rparr>"
  using C9_error_mapping [of "JObj [(''error'', JObj [(''message'', JStr ''teapot'')])]"
      repr_sample 418 "None :: unit option"]
  by simp

text \<open>
  C9 as stated fails: an error that is a string becomes the message, an error dict
  with no message hides the body's own message, and the errors built for two
  different status codes of the same class are equal.
\<close>

theorem C9_error_mapping_counterexample:
  "map_openai_error_to_anthropic repr_sample 400
     (JObj [(''error'', JStr ''boom'')]) (None :: unit option) =
     Inr \<lparr> err_class = BadRequestError, err_message = JStr ''boom'', err_response = None \<rparr> \<and>
   spec_error_message (JObj [(''error'', JStr ''boom'')]) = JStr ''Unknown error'' \<and>
   map_openai_error_to_anthropic repr_sample 400
     (JObj [(''error'', JObj []), (''message'', JStr ''m'')]) (None :: unit option) =
     Inr \<lparr> err_class = BadRequestError, err_message = JStr ''Unknown error'', err_response = None \<rparr> \<and>
   spec_error_message (JObj [(''error'', JObj []), (''message'', JStr ''m'')]) = JStr ''m'' \<and>
   map_openai_error_to_anthropic repr_sample 418 JNull (None :: unit option) =
   map_openai_error_to_anthropic repr_sample 419 JNull (None :: unit option)"
  by (simp add: map_openai_error_to_anthropic_def error_message_def error_class_of_status_def
      spec_error_message_def block_field_def py_str_def)

section \<open>Tool-call arguments that are not valid JSON\<close>

text \<open>
  C3. With the arguments string \<open>{bad json\<close>, which \<open>json.loads\<close> rejects, the
  generator yields no event at all for the chunk, while the response mapper builds the
  \<open>ToolUse\<close> block with the empty dict as input.
\<close>

theorem C3_stream_drops_bad_json:
  "transform_openai_stream_to_anthropic loads_sample
     [JObj [(''choices'', JList [JObj [(''delta'', JObj [(''tool_calls'', JList
        [JObj [(''id'', JStr ''c1''),
               (''function'', JObj [(''name'', JStr ''f''),
                                    (''arguments'', JStr ''{bad json'')])]])])]])]] = [] \<and>
   transform_openai_to_anthropic loads_sample ''0''
     (JObj [(''id'', JStr ''x''), (''model'', JStr ''m''),
            (''choices'', JList [JObj [(''message'', JObj [(''tool_calls'', JList
        [JObj [(''id'', JStr ''c1''),
               (''function'', JObj [(''name'', JStr ''f''),
                                    (''arguments'', JStr ''{bad json'')])]])])]])]) =
     Inr \<lparr> msg_id = JStr ''x'', msg_type = ''message'', msg_role = ''assistant'',
           msg_content = [ToolUse (JStr ''c1'') (JStr ''f'') (JObj []) ''tool_use''],
           msg_model = JStr ''m'', msg_stop_reason = None, msg_stop_sequence = None,
           msg_usage = Some \<lparr> input_tokens = JInt 0, output_tokens = JInt 0 \<rparr> \<rparr>"
  by (simp add: transform_openai_stream_to_anthropic_def process_event_def choice_and_delta_def
      role_phase_def
      content_phase_def tool_phase_def stream_tool_use_def then_phase_def py_loads_def
      loads_sample_def transform_openai_to_anthropic_def first_choice_def message_blocks_def
      tool_use_of_call_def map_finish_reason_to_stop_reason_def initial_state_def)

section \<open>The SSE parser\<close>

declare drain.simps [simp del] complete_records.simps [simp del]


lemma split_once_length:
  "split_once sep b = Some (a, r) \<Longrightarrow> length sep \<le> length b"
proof (induction b arbitrary: a)
  case Nil
  then show ?case by simp
next
  case (Cons x b)
  show ?case
  proof (cases "take (length sep) (x # b) = sep")
    case True
    then have "length (take (length sep) (x # b)) = length sep" by simp
    then show ?thesis by (simp add: min_def split: if_splits)
  next
    case False
    with Cons.prems obtain a' where "split_once sep b = Some (a', r)"
      by (auto split: option.splits)
    from Cons.IH [OF this] show ?thesis by simp
  qed
qed

lemma take_app_le: "n \<le> length xs \<Longrightarrow> take n (xs @ ys) = take n xs"
  by simp

lemma drop_app_le: "n \<le> length xs \<Longrightarrow> drop n (xs @ ys) = drop n xs @ ys"
  by simp

lemma split_once_append:
  "split_once sep b = Some (a, r) \<Longrightarrow> split_once sep (b @ c) = Some (a, r @ c)"
proof (induction b arbitrary: a)
  case Nil
  then show ?case by simp
next
  case (Cons x b)
  show ?case
  proof (cases "take (length sep) (x # b) = sep")
    case True
    then have "length (take (length sep) (x # b)) = length sep" by simp
    then have len: "length sep \<le> length (x # b)"
      by (simp add: min_def split: if_splits)
    have t: "take (length sep) ((x # b) @ c) = take (length sep) (x # b)"
      by (rule take_app_le [OF len])
    have d: "drop (length sep) ((x # b) @ c) = drop (length sep) (x # b) @ c"
      by (rule drop_app_le [OF len])
    from True Cons.prems have "a = []" "r = drop (length sep) (x # b)" by auto
    with True t d show ?thesis by simp
  next
    case False
    with Cons.prems obtain a' where s: "split_once sep b = Some (a', r)" and a: "a = x # a'"
      by (auto split: option.splits)
    from split_once_length [OF s] have "length sep \<le> length (x # b)" by simp
    then have "take (length sep) ((x # b) @ c) = take (length sep) (x # b)"
      by (rule take_app_le)
    with False Cons.IH [OF s] a show ?thesis by simp
  qed
qed

lemma drain_append:
  "drain loads (b @ c) =
     (case drain loads b of
        (ys, rest, ret) \<Rightarrow>
          if ret then (ys, rest @ c, True)
          else (case drain loads (rest @ c) of (ys2, rest2, ret2) \<Rightarrow> (ys @ ys2, rest2, ret2)))"
proof (induction loads b rule: drain.induct)
  case (1 loads buffer)
  show ?case
  proof (cases "split_once [CHR 0x0A, CHR 0x0A] buffer")
    case None
    then have "drain loads buffer = ([], buffer, False)"
      by (subst drain.simps) simp
    then show ?thesis by (simp split: prod.splits)
  next
    case (Some p)
    obtain event_data rest where p: "p = (event_data, rest)" by (cases p)
    note sp = Some [unfolded p]
    note spc = split_once_append [OF sp, of c]
    show ?thesis
    proof (cases "parse_event loads event_data")
      case None
      have "drain loads buffer = drain loads rest"
        by (subst drain.simps) (simp add: sp None)
      moreover have "drain loads (buffer @ c) = drain loads (rest @ c)"
        by (subst drain.simps) (simp add: spc None)
      ultimately show ?thesis
        using "1.IH"(1) [OF Some p [symmetric] None] by simp
    next
      case (Some event)
      note pe = Some
      show ?thesis
      proof (cases "map_of event ''event'' = Some (JStr ''done'')")
        case True
        have "drain loads buffer = ([], rest, True)"
          by (subst drain.simps) (simp add: sp pe True)
        moreover have "drain loads (buffer @ c) = ([], rest @ c, True)"
          by (subst drain.simps) (simp add: spc pe True)
        ultimately show ?thesis by simp
      next
        case False
        show ?thesis
        proof (cases "map_of event ''data''")
          case None
          have "drain loads buffer = drain loads rest"
            by (subst drain.simps) (simp add: sp pe False None)
          moreover have "drain loads (buffer @ c) = drain loads (rest @ c)"
            by (subst drain.simps) (simp add: spc pe False None)
          ultimately show ?thesis
            using "1.IH"(2) [OF \<open>split_once _ buffer = Some p\<close> p [symmetric] pe False None]
            by simp
        next
          case (Some d)
          have a: "drain loads buffer =
              (case drain loads rest of (ys, b, r) \<Rightarrow> (d # ys, b, r))"
            by (subst drain.simps) (simp add: sp pe False Some)
          have b: "drain loads (buffer @ c) =
              (case drain loads (rest @ c) of (ys, b, r) \<Rightarrow> (d # ys, b, r))"
            by (subst drain.simps) (simp add: spc pe False Some)
          show ?thesis
            unfolding a b
            using "1.IH"(3) [OF \<open>split_once _ buffer = Some p\<close> p [symmetric] pe False Some]
            by (simp split: prod.splits)
        qed
      qed
    qed
  qed
qed

lemma drain_no_delimiter:
  "split_once [CHR 0x0A, CHR 0x0A] buffer = None \<Longrightarrow> drain loads buffer = ([], buffer, False)"
  by (subst drain.simps) simp

lemma drain_rest:
  "drain loads b = (ys, rest, False) \<Longrightarrow> split_once [CHR 0x0A, CHR 0x0A] rest = None"
proof (induction loads b arbitrary: ys rule: drain.induct)
  case (1 loads buffer)
  show ?case
  proof (cases "split_once [CHR 0x0A, CHR 0x0A] buffer")
    case None
    with "1.prems" drain_no_delimiter [OF None, of loads] show ?thesis by simp
  next
    case (Some p)
    obtain event_data r where p: "p = (event_data, r)" by (cases p)
    note sp = Some [unfolded p]
    show ?thesis
    proof (cases "parse_event loads event_data")
      case None
      have "drain loads buffer = drain loads r"
        by (subst drain.simps) (simp add: sp None)
      with "1.prems" "1.IH"(1) [OF Some p [symmetric] None] show ?thesis by simp
    next
      case (Some event)
      note pe = Some
      show ?thesis
      proof (cases "map_of event ''event'' = Some (JStr ''done'')")
        case True
        have "drain loads buffer = ([], r, True)"
          by (subst drain.simps) (simp add: sp pe True)
        with "1.prems" show ?thesis by simp
      next
        case False
        show ?thesis
        proof (cases "map_of event ''data''")
          case None
          have "drain loads buffer = drain loads r"
            by (subst drain.simps) (simp add: sp pe False None)
          with "1.prems"
            "1.IH"(2) [OF \<open>split_once _ buffer = Some p\<close> p [symmetric] pe False None]
          show ?thesis by simp
        next
          case (Some d)
          have a: "drain loads buffer =
              (case drain loads r of (ys, b, r) \<Rightarrow> (d # ys, b, r))"
            by (subst drain.simps) (simp add: sp pe False Some)
          with "1.prems" obtain ys' where "drain loads r = (ys', rest, False)"
            by (auto split: prod.splits)
          with "1.IH"(3) [OF \<open>split_once _ buffer = Some p\<close> p [symmetric] pe False Some]
          show ?thesis by simp
        qed
      qed
    qed
  qed
qed

lemma parse_loop_concat:
  "split_once [CHR 0x0A, CHR 0x0A] buffer = None \<Longrightarrow>
   parse_loop loads buffer chunks = fst (drain loads (buffer @ concat chunks))"
proof (induction chunks arbitrary: buffer)
  case Nil
  then show ?case by (simp add: drain_no_delimiter)
next
  case (Cons chunk chunks)
  obtain ys b2 ret where d: "drain loads (buffer @ chunk) = (ys, b2, ret)"
    by (cases "drain loads (buffer @ chunk)")
  have app: "drain loads ((buffer @ chunk) @ concat chunks) =
      (if ret then (ys, b2 @ concat chunks, True)
       else (case drain loads (b2 @ concat chunks) of (ys2, rest2, ret2) \<Rightarrow> (ys @ ys2, rest2, ret2)))"
    by (subst drain_append) (simp add: d)
  show ?case
  proof (cases ret)
    case True
    with d app show ?thesis by simp
  next
    case False
    with d have "drain loads (buffer @ chunk) = (ys, b2, False)" by simp
    then have "split_once [CHR 0x0A, CHR 0x0A] b2 = None" by (rule drain_rest)
    from Cons.IH [OF this] d app False show ?thesis
      by (simp split: prod.splits)
  qed
qed

lemma parse_is_drain:
  "parse_openai_streaming_response loads chunks = fst (drain loads (concat chunks))"
  using parse_loop_concat [of "[]" loads chunks]
  by (simp add: parse_openai_streaming_response_def)

lemma parse_event_lines_fields:
  "snd (parse_event_lines event data_lines lines) =
     data_lines @ map snd (filter (\<lambda>kv. fst kv = ''data'') (List.map_filter parse_line lines)) \<and>
   map_of (fst (parse_event_lines event data_lines lines)) ''data'' = map_of event ''data'' \<and>
   ((''event'', ''done'') \<notin> set (List.map_filter parse_line lines) \<longrightarrow>
    map_of event ''event'' \<noteq> Some (JStr ''done'') \<longrightarrow>
    map_of (fst (parse_event_lines event data_lines lines)) ''event'' \<noteq> Some (JStr ''done''))"
proof (induction lines arbitrary: event data_lines)
  case Nil
  then show ?case by simp
next
  case (Cons line lines)
  show ?case
  proof (cases "parse_line line")
    case None
    with Cons.IH [of event data_lines] show ?thesis by simp
  next
    case (Some kv)
    obtain k v where kv: "kv = (k, v)" by (cases kv)
    show ?thesis
    proof (cases "k = ''data''")
      case True
      with Some kv Cons.IH [of event "data_lines @ [v]"] show ?thesis
        by simp
    next
      case False
      with Some kv Cons.IH [of "dict_set k (JStr v) event" data_lines] show ?thesis
        by (auto simp: map_of_dict_set split: if_splits)
    qed
  qed
qed

lemma parse_event_payload:
  assumes "\<not> has_event_done r"
  shows "case data_payload r of
           None \<Rightarrow>
             (case parse_event loads r of
                None \<Rightarrow> True
              | Some ev \<Rightarrow> map_of ev ''event'' \<noteq> Some (JStr ''done'') \<and> map_of ev ''data'' = None)
         | Some d \<Rightarrow>
             if d = ''[DONE]'' then parse_event loads r = Some [(''event'', JStr ''done'')]
             else (\<exists>ev. parse_event loads r = Some ev \<and>
                        map_of ev ''event'' \<noteq> Some (JStr ''done'') \<and>
                        map_of ev ''data'' = Some (decode_payload loads d))"
proof -
  obtain event data_lines where pl: "parse_event_lines [] [] (split_nl r) = (event, data_lines)"
    by (cases "parse_event_lines [] [] (split_nl r)")
  from parse_event_lines_fields [of "[]" "[]" "split_nl r"] pl assms
  have dl: "data_lines = map snd (filter (\<lambda>kv. fst kv = ''data'') (record_fields r))"
    and nd: "map_of event ''data'' = None"
    and ne: "map_of event ''event'' \<noteq> Some (JStr ''done'')"
    by (simp_all add: record_fields_def has_event_done_def)
  show ?thesis
  proof (cases "data_lines = []")
    case True
    then have "data_payload r = None" using dl by (simp add: data_payload_def)
    moreover have "parse_event loads r = (if event \<noteq> [] then Some event else None)"
      using pl True by (simp add: parse_event_def)
    ultimately show ?thesis using nd ne by simp
  next
    case False
    then have dp: "data_payload r = Some (join_nl data_lines)"
      using dl by (simp add: data_payload_def)
    show ?thesis
    proof (cases "join_nl data_lines = ''[DONE]''")
      case True
      with pl False have "parse_event loads r = Some [(''event'', JStr ''done'')]"
        by (simp add: parse_event_def)
      with dp True show ?thesis by simp
    next
      case nodone: False
      let ?ev = "dict_set ''data'' (decode_payload loads (join_nl data_lines)) event"
      have ne2: "?ev \<noteq> []"
        by (cases event) (simp_all add: dict_set_def)
      have "parse_event loads r = Some ?ev"
        using pl False nodone ne2
        by (simp add: parse_event_def decode_payload_def Let_def)
      moreover have "map_of ?ev ''event'' \<noteq> Some (JStr ''done'')"
        using ne by (simp add: map_of_dict_set)
      moreover have "map_of ?ev ''data'' = Some (decode_payload loads (join_nl data_lines))"
        by (simp add: map_of_dict_set)
      ultimately show ?thesis using dp nodone by simp
    qed
  qed
qed

lemma drain_spec:
  "list_all (\<lambda>r. \<not> has_event_done r) (complete_records s) \<Longrightarrow>
   fst (drain loads s) = spec_payloads loads (complete_records s)"
proof (induction loads s rule: drain.induct)
  case (1 loads buffer)
  show ?case
  proof (cases "split_once [CHR 0x0A, CHR 0x0A] buffer")
    case None
    then have "complete_records buffer = []"
      by (subst complete_records.simps) simp
    with drain_no_delimiter [OF None, of loads] show ?thesis by simp
  next
    case (Some p)
    obtain event_data rest where p: "p = (event_data, rest)" by (cases p)
    note sp = Some [unfolded p]
    have cr: "complete_records buffer = event_data # complete_records rest"
      by (subst complete_records.simps) (simp add: sp)
    with "1.prems" have nd: "\<not> has_event_done event_data"
      and rest: "list_all (\<lambda>r. \<not> has_event_done r) (complete_records rest)"
      by simp_all
    note pp = parse_event_payload [OF nd, of loads]
    show ?thesis
    proof (cases "parse_event loads event_data")
      case None
      have d: "drain loads buffer = drain loads rest"
        by (subst drain.simps) (simp add: sp None)
      from pp None have "data_payload event_data = None"
        by (cases "data_payload event_data") (auto split: if_splits)
      with d cr "1.IH"(1) [OF Some p [symmetric] None rest] show ?thesis by simp
    next
      case (Some event)
      note pe = Some
      show ?thesis
      proof (cases "map_of event ''event'' = Some (JStr ''done'')")
        case True
        have d: "drain loads buffer = ([], rest, True)"
          by (subst drain.simps) (simp add: sp pe True)
        from pp pe True have "data_payload event_data = Some ''[DONE]''"
          by (cases "data_payload event_data") (auto split: if_splits)
        with d cr show ?thesis by simp
      next
        case False
        have notdone: "data_payload event_data \<noteq> Some ''[DONE]''"
          using pp pe False by auto
        show ?thesis
        proof (cases "map_of event ''data''")
          case None
          have d: "drain loads buffer = drain loads rest"
            by (subst drain.simps) (simp add: sp pe False None)
          from pp pe None notdone have "data_payload event_data = None"
            by (cases "data_payload event_data") (auto split: if_splits)
          with d cr
            "1.IH"(2) [OF \<open>split_once _ buffer = Some p\<close> p [symmetric] pe False None rest]
          show ?thesis by simp
        next
          case (Some d)
          have dr: "drain loads buffer =
              (case drain loads rest of (ys, b, r) \<Rightarrow> (d # ys, b, r))"
            by (subst drain.simps) (simp add: sp pe False Some)
          from pp pe Some notdone obtain x where
            x: "data_payload event_data = Some x" "x \<noteq> ''[DONE]''" "d = decode_payload loads x"
            by (cases "data_payload event_data") (auto split: if_splits)
          with dr cr
            "1.IH"(3) [OF \<open>split_once _ buffer = Some p\<close> p [symmetric] pe False Some rest]
          show ?thesis by (simp split: prod.splits)
        qed
      qed
    qed
  qed
qed

text \<open>
  C4, as amended. For every sequence of text fragments in which no complete record has
  a field line \<open>event: done\<close>, \<open>parse_openai_streaming_response\<close> yields the
  decoded data payloads of the complete records of the concatenated text, in order,
  up to the first record whose payload is \<open>[DONE]\<close>: the result does not depend on
  where the fragments are cut, the text after the last double newline is never
  decoded, and nothing is yielded after \<open>[DONE]\<close>.
\<close>

theorem C4_framing:
  assumes "list_all (\<lambda>r. \<not> has_event_done r) (complete_records (concat chunks))"
  shows "parse_openai_streaming_response loads chunks =
           spec_payloads loads (complete_records (concat chunks))"
  using drain_spec [OF assms, of loads] by (simp add: parse_is_drain)

theorem C4_framing_witness:
  "list_all (\<lambda>r. \<not> has_event_done r)
     (complete_records (concat
        [''data: 1'' @ [CHR 0x0A],
         [CHR 0x0A] @ ''data: 2'' @ [CHR 0x0A, CHR 0x0A] @ ''data: [DONE]'' @
           [CHR 0x0A, CHR 0x0A] @ ''data: 1'' @ [CHR 0x0A, CHR 0x0A],
         ''data: 2''])) \<and>
   parse_openai_streaming_response loads_sample
        [''data: 1'' @ [CHR 0x0A],
         [CHR 0x0A] @ ''data: 2'' @ [CHR 0x0A, CHR 0x0A] @ ''data: [DONE]'' @
           [CHR 0x0A, CHR 0x0A] @ ''data: 1'' @ [CHR 0x0A, CHR 0x0A],
         ''data: 2''] = [JInt 1, JInt 2]"
proof -
  let ?chunks = "[''data: 1'' @ [CHR 0x0A],
         [CHR 0x0A] @ ''data: 2'' @ [CHR 0x0A, CHR 0x0A] @ ''data: [DONE]'' @
           [CHR 0x0A, CHR 0x0A] @ ''data: 1'' @ [CHR 0x0A, CHR 0x0A],
         ''data: 2'']"
  have h: "list_all (\<lambda>r. \<not> has_event_done r) (complete_records (concat ?chunks))"
    by code_simp
  have s: "spec_payloads loads_sample (complete_records (concat ?chunks)) = [JInt 1, JInt 2]"
    by code_simp
  from C4_framing [OF h, of loads_sample] s h show ?thesis by simp
qed

text \<open>
  C4 as stated fails: a record with the field line \<open>event: done\<close> ends the generator
  as \<open>[DONE]\<close> does, so the payload of the complete record after it is not yielded.
\<close>

theorem C4_framing_counterexample:
  "parse_openai_streaming_response loads_sample
     [''event: done'' @ [CHR 0x0A, CHR 0x0A] @ ''data: 1'' @ [CHR 0x0A, CHR 0x0A]] = [] \<and>
   spec_payloads loads_sample
     (complete_records (concat
        [''event: done'' @ [CHR 0x0A, CHR 0x0A] @ ''data: 1'' @ [CHR 0x0A, CHR 0x0A]])) = [JInt 1]"
  by code_simp

section \<open>The stream transducer\<close>

lemma then_phase_None [simp]:
  "then_phase (s1, e1, None) f = (case f s1 of (s2, e2, x) \<Rightarrow> (s2, e1 @ e2, x))"
  by (simp add: then_phase_def)

lemma then_phase_Some [simp]: "then_phase (s1, e1, Some e) f = (s1, e1, Some e)"
  by (simp add: then_phase_def)

lemma role_phase_events:
  assumes "role_phase st (JObj ek) delta = (st', evs, x)"
  shows "content_blocks st' = content_blocks st \<and>
         (if truthy (block_field ''role'' JNull delta)
          then x = None \<and> evs = [MessageStart (current_message st')]
          else evs = [])"
proof (cases delta)
  case (JObj dk)
  show ?thesis
  proof (cases "map_of dk ''role''")
    case None
    with assms JObj show ?thesis
      by (auto simp: role_phase_def block_field_def)
  next
    case (Some r)
    with assms JObj show ?thesis
      by (auto simp: role_phase_def block_field_def Let_def split: if_splits)
  qed
qed (use assms in \<open>auto simp: role_phase_def block_field_def\<close>)

lemma content_phase_events:
  assumes "content_phase st delta = (st', evs, x)"
  shows "list_all is_block_open evs"
  using assms unfolding content_phase_def append_block_def
  by (auto simp: Let_def split: sum.splits option.splits if_splits list.splits
      content_block.splits prod.splits)

lemma stream_tool_loop_events:
  "stream_tool_loop loads st i tcs = (st', evs, x) \<Longrightarrow> list_all is_block_open evs"
proof (induction tcs arbitrary: st i st' evs x)
  case Nil
  then show ?case by simp
next
  case (Cons tc tcs)
  show ?case
  proof (cases "stream_tool_use loads tc")
    case (Inl e)
    with Cons.prems show ?thesis by simp
  next
    case (Inr r)
    show ?thesis
    proof (cases r)
      case None
      with Inr Cons.prems Cons.IH show ?thesis by simp
    next
      case (Some tu)
      show ?thesis
      proof (cases "length (content_blocks st) \<le> i")
        case True
        obtain s2 e2 x2 where r: "stream_tool_loop loads (append_block tu st) (Suc i) tcs = (s2, e2, x2)"
          by (cases "stream_tool_loop loads (append_block tu st) (Suc i) tcs")
        from Cons.IH [OF r] Cons.prems Inr Some True r show ?thesis by auto
      next
        case False
        obtain s2 e2 x2 where r: "stream_tool_loop loads st (Suc i) tcs = (s2, e2, x2)"
          by (cases "stream_tool_loop loads st (Suc i) tcs")
        from Cons.IH [OF r] Cons.prems Inr Some False r show ?thesis by auto
      qed
    qed
  qed
qed

lemma tool_phase_events:
  assumes "tool_phase loads st delta = (st', evs, x)"
  shows "list_all is_block_open evs"
  using assms stream_tool_loop_events unfolding tool_phase_def
  by (auto split: sum.splits option.splits)

lemma table_get_spec: "table_get stop_reason_map fr ''end_turn'' = spec_stop_reason fr"
  by (cases fr) (auto simp: table_get_def stop_reason_map_def spec_stop_reason_def)

lemma usage_update_obj:
  "usage_update st (JObj ek) = Inr st2 \<Longrightarrow>
   content_blocks st2 = content_blocks st \<and>
   (map_of ek ''usage'' = None \<longrightarrow> st2 = st) \<and>
   (\<forall>u. map_of ek ''usage'' = Some (JObj u) \<longrightarrow>
        sm_usage (current_message st2) =
          Some \<lparr> input_tokens = (case map_of u ''prompt_tokens'' of Some n \<Rightarrow> n | None \<Rightarrow> JInt 0),
                 output_tokens = (case map_of u ''completion_tokens'' of Some n \<Rightarrow> n | None \<Rightarrow> JInt 0) \<rparr>)"
proof (cases "map_of ek ''usage''")
  case None
  then show "usage_update st (JObj ek) = Inr st2 \<Longrightarrow> ?thesis"
    by (simp add: usage_update_def)
next
  case (Some ud)
  then show "usage_update st (JObj ek) = Inr st2 \<Longrightarrow> ?thesis"
    by (cases ud) (auto simp: usage_update_def)
qed

lemma finish_phase_events:
  assumes "finish_phase st (JObj ek) (JObj ck) = (st', evs, x)"
  shows "content_blocks st' = content_blocks st \<and>
     (if truthy (block_field ''finish_reason'' JNull (JObj ck)) then
        (case x of
           None \<Rightarrow>
             evs = map ContentBlockStop [0 ..< length (content_blocks st)] @
                   [MessageDelta
                      (JObj [(''stop_reason'',
                              JStr (spec_stop_reason (block_field ''finish_reason'' JNull (JObj ck))))])
                      (sm_usage (current_message st')),
                    MessageStop] \<and>
             (\<forall>u. map_of ek ''usage'' = Some (JObj u) \<longrightarrow>
                sm_usage (current_message st') =
                  Some \<lparr> input_tokens = (case map_of u ''prompt_tokens'' of Some n \<Rightarrow> n | None \<Rightarrow> JInt 0),
                         output_tokens = (case map_of u ''completion_tokens'' of Some n \<Rightarrow> n | None \<Rightarrow> JInt 0) \<rparr>)
         | Some e \<Rightarrow> evs = map ContentBlockStop [0 ..< length (content_blocks st)])
      else evs = [] \<and> x = None)"
proof -
  define fr where "fr = block_field ''finish_reason'' JNull (JObj ck)"
  have g: "py_get (JObj ck) ''finish_reason'' JNull = Inr fr"
    by (simp add: fr_def block_field_def)
  show ?thesis
  proof (cases "truthy fr")
    case False
    with assms g show ?thesis
      by (simp add: finish_phase_def fr_def [symmetric])
  next
    case True
    show ?thesis
    proof (cases "hashable fr")
      case False
      with assms g True show ?thesis
        by (auto simp: finish_phase_def fr_def [symmetric] Let_def)
    next
      case h: True
      define st1 where "st1 = st \<lparr> current_message := (current_message st)
                                 \<lparr> sm_stop_reason := Some (spec_stop_reason fr) \<rparr> \<rparr>"
      have cb1: "content_blocks st1 = content_blocks st" by (simp add: st1_def)
      let ?stops = "map ContentBlockStop [0 ..< length (content_blocks st)]"
      have fp: "finish_phase st (JObj ek) (JObj ck) =
          (case usage_update st1 (JObj ek) of
             Inl e \<Rightarrow> (st1, ?stops, Some e)
           | Inr st2 \<Rightarrow>
               (st2,
                ?stops @ [MessageDelta (JObj [(''stop_reason'', JStr (spec_stop_reason fr))])
                            (sm_usage (current_message st2)),
                          MessageStop],
                None))"
        unfolding st1_def using g True h
        by (simp add: finish_phase_def Let_def table_get_spec)
      show ?thesis
      proof (cases "usage_update st1 (JObj ek)")
        case (Inl e)
        with assms fp have "st' = st1" "evs = ?stops" "x = Some e" by simp_all
        with True cb1 show ?thesis by (simp add: fr_def [symmetric])
      next
        case (Inr st2)
        from usage_update_obj [OF Inr] have
          cb: "content_blocks st2 = content_blocks st1" and
          us: "\<forall>u. map_of ek ''usage'' = Some (JObj u) \<longrightarrow>
            sm_usage (current_message st2) =
              Some \<lparr> input_tokens = (case map_of u ''prompt_tokens'' of Some n \<Rightarrow> n | None \<Rightarrow> JInt 0),
                 output_tokens = (case map_of u ''completion_tokens'' of Some n \<Rightarrow> n | None \<Rightarrow> JInt 0) \<rparr>"
          by blast+
        from assms fp Inr have r: "st' = st2"
          "evs = ?stops @ [MessageDelta (JObj [(''stop_reason'', JStr (spec_stop_reason fr))])
                            (sm_usage (current_message st2)),
                          MessageStop]" "x = None"
          by auto
        show ?thesis
          unfolding r fr_def [symmetric] using True cb cb1 us by simp
      qed
    qed
  qed
qed

lemma chunk_parts_Some:
  assumes "chunk_parts event = Some (choice, delta)"
  shows "\<exists>ek ck. event = JObj ek \<and> choice = JObj ck \<and>
           py_in ''choices'' event = Inr True \<and> choice_and_delta event = Inr (choice, delta)"
proof (cases "py_in ''choices'' event")
  case (Inl e)
  with assms show ?thesis by (simp add: chunk_parts_def)
next
  case (Inr b)
  show ?thesis
  proof (cases b)
    case False
    with assms Inr show ?thesis by (simp add: chunk_parts_def)
  next
    case True
    show ?thesis
    proof (cases "choice_and_delta event")
      case (Inl e)
      with assms Inr True show ?thesis by (simp add: chunk_parts_def)
    next
      case cd: (Inr p)
      with assms Inr True have p: "p = (choice, delta)" by (simp add: chunk_parts_def)
      from cd [unfolded p choice_and_delta_def pbind_eq_Inr] obtain cs where
        cs: "py_item event ''choices'' = Inr cs"
        and gd: "py_get choice ''delta'' (JObj []) = Inr delta"
        by auto
      from cs obtain ek where ek: "event = JObj ek" by (cases event) simp_all
      from gd obtain ck where ck: "choice = JObj ck" by (cases choice) simp_all
      have a: "py_in ''choices'' event = Inr True" using Inr True by simp
      have b: "choice_and_delta event = Inr (choice, delta)" using cd p by simp
      show ?thesis
        by (rule exI [of _ ek], rule exI [of _ ck]) (intro conjI ek ck a b)
    qed
  qed
qed

lemma process_event_None:
  assumes "chunk_parts event = None"
  shows "\<exists>x. process_event loads st event = (st, [], x)"
proof (cases "py_in ''choices'' event")
  case (Inl e)
  then show ?thesis by (simp add: process_event_def)
next
  case (Inr b)
  show ?thesis
  proof (cases b)
    case False
    with Inr show ?thesis by (simp add: process_event_def)
  next
    case True
    show ?thesis
    proof (cases "choice_and_delta event")
      case (Inl e)
      with Inr True show ?thesis by (simp add: process_event_def)
    next
      case cd: (Inr p)
      with assms Inr True show ?thesis by (simp add: chunk_parts_def)
    qed
  qed
qed

lemma process_event_Some:
  assumes "chunk_parts event = Some (choice, delta)"
  shows "process_event loads st event =
           then_phase
             (then_phase
                (then_phase (role_phase st event delta) (\<lambda>s. content_phase s delta))
                (\<lambda>s. tool_phase loads s delta))
             (\<lambda>s. finish_phase s event choice)"
proof -
  from chunk_parts_Some [OF assms] have a: "py_in ''choices'' event = Inr True"
    and b: "choice_and_delta event = Inr (choice, delta)"
    by blast+
  show ?thesis unfolding process_event_def a b by simp
qed

lemma then_phase_cases:
  assumes "then_phase r f = (st', evs, x)"
  shows "(\<exists>e. r = (st', evs, Some e) \<and> x = Some e) \<or>
         (\<exists>s1 e1 e2. r = (s1, e1, None) \<and> f s1 = (st', e2, x) \<and> evs = e1 @ e2)"
proof -
  obtain s1 e1 x1 where r: "r = (s1, e1, x1)" by (cases r)
  show ?thesis
  proof (cases x1)
    case None
    obtain s2 e2 x2 where f: "f s1 = (s2, e2, x2)" by (cases "f s1")
    from assms r None f have "st' = s2" "evs = e1 @ e2" "x = x2" by simp_all
    with r None f show ?thesis by simp
  next
    case (Some e)
    with assms r show ?thesis by auto
  qed
qed

lemma open_not_start: "list_all is_block_open evs \<Longrightarrow> filter is_message_start evs = []"
proof (induction evs)
  case Nil
  then show ?case by simp
next
  case (Cons e evs)
  then show ?case by (cases e) simp_all
qed

lemma open_not_stop: "list_all is_block_open evs \<Longrightarrow> filter is_message_stop evs = []"
proof (induction evs)
  case Nil
  then show ?case by simp
next
  case (Cons e evs)
  then show ?case by (cases e) simp_all
qed

lemma stops_not_start: "filter is_message_start (map ContentBlockStop ns) = []"
  by (induction ns) simp_all

lemma stops_not_stop: "filter is_message_stop (map ContentBlockStop ns) = []"
  by (induction ns) simp_all

lemma finish_events_start: "filter is_message_start (finish_events st fr) = []"
  by (simp add: finish_events_def stops_not_start)

lemma finish_events_stop: "filter is_message_stop (finish_events st fr) = [MessageStop]"
  by (simp add: finish_events_def stops_not_stop)

lemma finish_phase_chunk:
  assumes "finish_phase st (JObj ek) (JObj ck) = (st', evs, x)"
  shows "if truthy (block_field ''finish_reason'' JNull (JObj ck)) \<and> x = None
         then evs = finish_events st' (block_field ''finish_reason'' JNull (JObj ck)) \<and>
              (chunk_usage (JObj ek) \<noteq> None \<longrightarrow>
                 sm_usage (current_message st') = chunk_usage (JObj ek))
         else \<exists>k. evs = map ContentBlockStop [0 ..< k]"
proof -
  note fp = finish_phase_events [OF assms]
  from fp have cb: "content_blocks st' = content_blocks st" by simp
  show ?thesis
  proof (cases "truthy (block_field ''finish_reason'' JNull (JObj ck))")
    case False
    with fp have "evs = map ContentBlockStop [0 ..< 0]" by simp
    with False show ?thesis by auto
  next
    case True
    show ?thesis
    proof (cases x)
      case None
      from fp True None have
        e: "evs = map ContentBlockStop [0 ..< length (content_blocks st)] @
                   [MessageDelta
                      (JObj [(''stop_reason'',
                              JStr (spec_stop_reason (block_field ''finish_reason'' JNull (JObj ck))))])
                      (sm_usage (current_message st')),
                    MessageStop]"
        and u: "\<forall>u. map_of ek ''usage'' = Some (JObj u) \<longrightarrow>
                sm_usage (current_message st') =
                  Some \<lparr> input_tokens = (case map_of u ''prompt_tokens'' of Some n \<Rightarrow> n | None \<Rightarrow> JInt 0),
                         output_tokens = (case map_of u ''completion_tokens'' of Some n \<Rightarrow> n | None \<Rightarrow> JInt 0) \<rparr>"
        by simp_all
      have e': "evs = finish_events st' (block_field ''finish_reason'' JNull (JObj ck))"
        unfolding e finish_events_def cb ..
      have u': "chunk_usage (JObj ek) \<noteq> None \<longrightarrow>
                 sm_usage (current_message st') = chunk_usage (JObj ek)"
      proof (cases "map_of ek ''usage''")
        case None
        then show ?thesis by (simp add: chunk_usage_def)
      next
        case (Some ud)
        with u show ?thesis by (cases ud) (simp_all add: chunk_usage_def)
      qed
      from True None e' u' show ?thesis by simp
    next
      case (Some e)
      with fp True have "evs = map ContentBlockStop [0 ..< length (content_blocks st)]" by simp
      with Some show ?thesis by auto
    qed
  qed
qed

lemma process_event_events:
  assumes pe: "process_event loads st event = (st', evs, x)"
  shows "\<exists>ms mid fin. evs = ms @ mid @ fin \<and>
     (if carries_role event then \<exists>m. ms = [MessageStart m] else ms = []) \<and>
     list_all is_block_open mid \<and>
     (if carries_finish event \<and> x = None
      then fin = finish_events st' (chunk_finish_reason event) \<and>
           (chunk_usage event \<noteq> None \<longrightarrow> sm_usage (current_message st') = chunk_usage event)
      else \<exists>k. fin = map ContentBlockStop [0 ..< k])"
proof (cases "chunk_parts event")
  case None
  from process_event_None [OF None, of loads st] pe have e: "evs = []" by auto
  from None have nr: "\<not> carries_role event" and nf: "\<not> carries_finish event"
    by (simp_all add: carries_role_def carries_finish_def)
  have "\<exists>k. ([]::streaming_event list) = map ContentBlockStop [0 ..< k]"
    by (rule exI [of _ 0]) simp
  with e nr nf show ?thesis
    by (intro exI [of _ "[]"]) simp
next
  case (Some p)
  obtain choice delta where p: "p = (choice, delta)" by (cases p)
  from Some p have cp: "chunk_parts event = Some (choice, delta)" by simp
  from chunk_parts_Some [OF cp] obtain ek ck where ek: "event = JObj ek" and ck: "choice = JObj ck"
    by blast
  have cr: "carries_role event = truthy (block_field ''role'' JNull delta)"
    by (simp add: carries_role_def cp)
  have cf: "carries_finish event = truthy (block_field ''finish_reason'' JNull (JObj ck))"
    by (simp add: carries_finish_def cp ck)
  have fr: "chunk_finish_reason event = block_field ''finish_reason'' JNull (JObj ck)"
    by (simp add: chunk_finish_reason_def cp ck)
  have nofin: "\<exists>k. ([]::streaming_event list) = map ContentBlockStop [0 ..< k]"
    by (rule exI [of _ 0]) simp
  from pe have t4: "then_phase
             (then_phase
                (then_phase (role_phase st event delta) (\<lambda>s. content_phase s delta))
                (\<lambda>s. tool_phase loads s delta))
             (\<lambda>s. finish_phase s event choice) = (st', evs, x)"
    unfolding process_event_Some [OF cp] .
  from then_phase_cases [OF t4] show ?thesis
  proof (elim disjE exE conjE)
    fix e
    assume r3: "then_phase
                (then_phase (role_phase st event delta) (\<lambda>s. content_phase s delta))
                (\<lambda>s. tool_phase loads s delta) = (st', evs, Some e)" and x: "x = Some e"
    from then_phase_cases [OF r3] show ?thesis
    proof (elim disjE exE conjE)
      fix e'
      assume r2: "then_phase (role_phase st event delta) (\<lambda>s. content_phase s delta) =
          (st', evs, Some e')"
      from then_phase_cases [OF r2] show ?thesis
      proof (elim disjE exE conjE)
        fix e''
        assume r1: "role_phase st event delta = (st', evs, Some e'')"
        from role_phase_events [OF r1 [unfolded ek]] cr
        have "if carries_role event then \<exists>m. evs = [MessageStart m] else evs = []"
          by auto
        with x nofin show ?thesis
          by (intro exI [of _ evs] exI [of _ "[]"]) simp
      next
        fix s1 e1 e2
        assume r1: "role_phase st event delta = (s1, e1, None)"
          and c: "content_phase s1 delta = (st', e2, Some e')" and evs: "evs = e1 @ e2"
        from role_phase_events [OF r1 [unfolded ek]] cr
        have ms: "if carries_role event then \<exists>m. e1 = [MessageStart m] else e1 = []"
          by auto
        from content_phase_events [OF c] have op: "list_all is_block_open e2" .
        from ms op x nofin evs show ?thesis
          by (intro exI [of _ e1] exI [of _ e2] exI [of _ "[]"]) simp
      qed
    next
      fix s2 e12 e3
      assume r2: "then_phase (role_phase st event delta) (\<lambda>s. content_phase s delta) =
          (s2, e12, None)"
        and t: "tool_phase loads s2 delta = (st', e3, Some e)" and evs: "evs = e12 @ e3"
      from tool_phase_events [OF t] have op3: "list_all is_block_open e3" .
      from then_phase_cases [OF r2] show ?thesis
      proof (elim disjE exE conjE)
        fix e'' :: pyerr
        assume "None = Some e''"
        then show ?thesis by simp
      next
        fix s1 e1 e2
        assume r1: "role_phase st event delta = (s1, e1, None)"
          and c: "content_phase s1 delta = (s2, e2, None)" and e12: "e12 = e1 @ e2"
        from role_phase_events [OF r1 [unfolded ek]] cr
        have ms: "if carries_role event then \<exists>m. e1 = [MessageStart m] else e1 = []"
          by auto
        from content_phase_events [OF c] have op: "list_all is_block_open e2" .
        from ms op op3 x nofin evs e12 show ?thesis
          by (intro exI [of _ e1] exI [of _ "e2 @ e3"] exI [of _ "[]"]) simp
      qed
    qed
  next
    fix s3 e123 e4
    assume r3: "then_phase
                (then_phase (role_phase st event delta) (\<lambda>s. content_phase s delta))
                (\<lambda>s. tool_phase loads s delta) = (s3, e123, None)"
      and f: "finish_phase s3 event choice = (st', e4, x)" and evs: "evs = e123 @ e4"
    from finish_phase_chunk [OF f [unfolded ek ck]] cf fr ek
    have fin: "if carries_finish event \<and> x = None
      then e4 = finish_events st' (chunk_finish_reason event) \<and>
           (chunk_usage event \<noteq> None \<longrightarrow> sm_usage (current_message st') = chunk_usage event)
      else \<exists>k. e4 = map ContentBlockStop [0 ..< k]"
      by simp
    from then_phase_cases [OF r3] show ?thesis
    proof (elim disjE exE conjE)
      fix e'' :: pyerr
      assume "None = Some e''"
      then show ?thesis by simp
    next
      fix s2 e12 e3
      assume r2: "then_phase (role_phase st event delta) (\<lambda>s. content_phase s delta) =
          (s2, e12, None)"
        and t: "tool_phase loads s2 delta = (s3, e3, None)" and e123: "e123 = e12 @ e3"
      from tool_phase_events [OF t] have op3: "list_all is_block_open e3" .
      from then_phase_cases [OF r2] show ?thesis
      proof (elim disjE exE conjE)
        fix e'' :: pyerr
        assume "None = Some e''"
        then show ?thesis by simp
      next
        fix s1 e1 e2
        assume r1: "role_phase st event delta = (s1, e1, None)"
          and c: "content_phase s1 delta = (s2, e2, None)" and e12: "e12 = e1 @ e2"
        from role_phase_events [OF r1 [unfolded ek]] cr
        have ms: "if carries_role event then \<exists>m. e1 = [MessageStart m] else e1 = []"
          by auto
        from content_phase_events [OF c] have op: "list_all is_block_open e2" .
        have op23: "list_all is_block_open (e2 @ e3)" using op op3 by simp
        have eq: "evs = e1 @ (e2 @ e3) @ e4" using evs e123 e12 by simp
        show ?thesis
          by (rule exI [of _ e1], rule exI [of _ "e2 @ e3"], rule exI [of _ e4])
             (intro conjI eq ms op23 fin)
      qed
    qed
  qed
qed

lemma process_event_starts:
  assumes pe: "process_event loads st event = (st', evs, x)"
  shows "if carries_role event
         then \<exists>m tail. evs = MessageStart m # tail \<and> filter is_message_start tail = []
         else filter is_message_start evs = []"
proof -
  from process_event_events [OF pe] obtain ms mid fin where
    evs: "evs = ms @ mid @ fin"
    and ms: "if carries_role event then \<exists>m. ms = [MessageStart m] else ms = []"
    and mid: "list_all is_block_open mid"
    and fin: "if carries_finish event \<and> x = None
      then fin = finish_events st' (chunk_finish_reason event) \<and>
           (chunk_usage event \<noteq> None \<longrightarrow> sm_usage (current_message st') = chunk_usage event)
      else \<exists>k. fin = map ContentBlockStop [0 ..< k]"
    by blast
  have f: "filter is_message_start fin = []"
  proof (cases "carries_finish event \<and> x = None")
    case True
    with fin show ?thesis by (simp add: finish_events_start)
  next
    case False
    with fin obtain k where "fin = map ContentBlockStop [0 ..< k]" by auto
    then show ?thesis by (simp add: stops_not_start)
  qed
  have t: "filter is_message_start (mid @ fin) = []"
    using open_not_start [OF mid] f by simp
  show ?thesis
  proof (cases "carries_role event")
    case True
    with ms obtain m where "ms = [MessageStart m]" by auto
    with evs have "evs = MessageStart m # (mid @ fin)" by simp
    with t True show ?thesis by auto
  next
    case False
    with ms evs t show ?thesis by simp
  qed
qed

lemma process_event_stops:
  assumes pe: "process_event loads st event = (st', evs, x)"
  shows "if carries_finish event \<and> x = None
         then \<exists>front. evs = front @ finish_events st' (chunk_finish_reason event) \<and>
                filter is_message_stop front = [] \<and>
                (chunk_usage event \<noteq> None \<longrightarrow>
                   sm_usage (current_message st') = chunk_usage event)
         else filter is_message_stop evs = []"
proof -
  from process_event_events [OF pe] obtain ms mid fin where
    evs: "evs = ms @ mid @ fin"
    and ms: "if carries_role event then \<exists>m. ms = [MessageStart m] else ms = []"
    and mid: "list_all is_block_open mid"
    and fin: "if carries_finish event \<and> x = None
      then fin = finish_events st' (chunk_finish_reason event) \<and>
           (chunk_usage event \<noteq> None \<longrightarrow> sm_usage (current_message st') = chunk_usage event)
      else \<exists>k. fin = map ContentBlockStop [0 ..< k]"
    by blast
  have m: "filter is_message_stop ms = []"
  proof (cases "carries_role event")
    case True
    with ms obtain m where "ms = [MessageStart m]" by auto
    then show ?thesis by simp
  next
    case False
    with ms show ?thesis by simp
  qed
  have front: "filter is_message_stop (ms @ mid) = []"
    using m open_not_stop [OF mid] by simp
  show ?thesis
  proof (cases "carries_finish event \<and> x = None")
    case True
    with fin have f: "fin = finish_events st' (chunk_finish_reason event)"
      and u: "chunk_usage event \<noteq> None \<longrightarrow> sm_usage (current_message st') = chunk_usage event"
      by simp_all
    have e: "evs = (ms @ mid) @ finish_events st' (chunk_finish_reason event)"
      using evs f by simp
    have "\<exists>front. evs = front @ finish_events st' (chunk_finish_reason event) \<and>
                filter is_message_stop front = [] \<and>
                (chunk_usage event \<noteq> None \<longrightarrow>
                   sm_usage (current_message st') = chunk_usage event)"
      by (rule exI [of _ "ms @ mid"]) (intro conjI e front u)
    with True show ?thesis by simp
  next
    case False
    with fin obtain k where "fin = map ContentBlockStop [0 ..< k]" by auto
    then have "filter is_message_stop fin = []" by (simp add: stops_not_stop)
    with front evs have ne: "filter is_message_stop evs = []" by simp
    show ?thesis unfolding if_not_P [OF False] by (rule ne)
  qed
qed

lemma stream_loop_append:
  "stream_loop loads st (xs @ ys) =
     stream_loop loads st xs @ stream_loop loads (state_after loads st xs) ys"
proof (induction xs arbitrary: st)
  case Nil
  then show ?case by simp
next
  case (Cons c xs)
  obtain st2 evs x where pe: "process_event loads st c = (st2, evs, x)"
    by (cases "process_event loads st c")
  with Cons show ?case by simp
qed

lemma stream_loop_starts:
  "length (filter is_message_start (stream_loop loads st chunks)) =
     length (filter carries_role chunks)"
proof (induction chunks arbitrary: st)
  case Nil
  then show ?case by simp
next
  case (Cons c chunks)
  obtain st2 evs x where pe: "process_event loads st c = (st2, evs, x)"
    by (cases "process_event loads st c")
  have "length (filter is_message_start evs) = (if carries_role c then 1 else 0)"
    using process_event_starts [OF pe] by (cases "carries_role c") auto
  with pe Cons.IH [of st2] show ?case by simp
qed

lemma stream_loop_stops:
  "length (filter is_message_stop (stream_loop loads st chunks)) \<le>
     length (filter carries_finish chunks)"
proof (induction chunks arbitrary: st)
  case Nil
  then show ?case by simp
next
  case (Cons c chunks)
  obtain st2 evs x where pe: "process_event loads st c = (st2, evs, x)"
    by (cases "process_event loads st c")
  have "length (filter is_message_stop evs) \<le> (if carries_finish c then 1 else 0)"
  proof (cases "carries_finish c \<and> x = None")
    case True
    with process_event_stops [OF pe] obtain front where
      "evs = front @ finish_events st2 (chunk_finish_reason c)"
      "filter is_message_stop front = []"
      by auto
    with True show ?thesis by (simp add: finish_events_stop)
  next
    case False
    with process_event_stops [OF pe] have "filter is_message_stop evs = []" by simp
    then show ?thesis by simp
  qed
  with pe Cons.IH [of st2] show ?case by (cases "carries_finish c") simp_all
qed

text \<open>
  C2. The generator yields one \<open>MessageStart\<close> for every chunk whose delta carries a
  role, on each occurrence, as the first event of that chunk; no other chunk yields
  one. So there is at most one when at most one chunk carries a role, and it is the
  first event of the stream when that chunk is the first.
\<close>

theorem C2_message_start:
  "length (filter is_message_start (transform_openai_stream_to_anthropic loads chunks)) =
     length (filter carries_role chunks) \<and>
   (\<forall>pre c post. chunks = pre @ c # post \<and> carries_role c \<longrightarrow>
      (\<exists>m tail. transform_openai_stream_to_anthropic loads chunks =
                   transform_openai_stream_to_anthropic loads pre @ MessageStart m # tail \<and>
                 length (filter is_message_start tail) = length (filter carries_role post)))"
proof (intro conjI allI impI)
  show "length (filter is_message_start (transform_openai_stream_to_anthropic loads chunks)) =
     length (filter carries_role chunks)"
    unfolding transform_openai_stream_to_anthropic_def by (rule stream_loop_starts)
next
  fix pre c post
  assume a: "chunks = pre @ c # post \<and> carries_role c"
  then have chunks: "chunks = pre @ c # post" and cr: "carries_role c" by simp_all
  define st where "st = state_after loads initial_state pre"
  obtain st2 evs x where pe: "process_event loads st c = (st2, evs, x)"
    by (cases "process_event loads st c")
  from process_event_starts [OF pe] cr obtain m tail where
    evs: "evs = MessageStart m # tail" and tail: "filter is_message_start tail = []"
    by auto
  have eq: "transform_openai_stream_to_anthropic loads chunks =
      transform_openai_stream_to_anthropic loads pre @
      MessageStart m # (tail @ stream_loop loads st2 post)"
    unfolding transform_openai_stream_to_anthropic_def chunks stream_loop_append
    using pe evs by (simp add: st_def)
  have cnt: "length (filter is_message_start (tail @ stream_loop loads st2 post)) =
      length (filter carries_role post)"
    using tail stream_loop_starts [of loads st2 post] by simp
  show "\<exists>m tail. transform_openai_stream_to_anthropic loads chunks =
                   transform_openai_stream_to_anthropic loads pre @ MessageStart m # tail \<and>
                 length (filter is_message_start tail) = length (filter carries_role post)"
    by (rule exI [of _ m], rule exI [of _ "tail @ stream_loop loads st2 post"])
       (intro conjI eq cnt)
qed

theorem C2_message_start_witness:
  "carries_role
     (JObj [(''id'', JStr ''c1''), (''model'', JStr ''m''),
            (''choices'', JList [JObj [(''delta'', JObj [(''role'', JStr ''assistant'')])]])]) \<and>
   (\<exists>m tail.
      transform_openai_stream_to_anthropic loads_sample
        [JObj [(''id'', JStr ''c1''), (''model'', JStr ''m''),
               (''choices'', JList [JObj [(''delta'', JObj [(''role'', JStr ''assistant'')])]])],
         JObj [(''choices'', JList [JObj [(''delta'', JObj [(''content'', JStr ''Hi'')])]])]] =
        MessageStart m # tail \<and>
      filter is_message_start tail = [])"
proof -
  let ?r0 = "JObj [(''id'', JStr ''c1''), (''model'', JStr ''m''),
            (''choices'', JList [JObj [(''delta'', JObj [(''role'', JStr ''assistant'')])]])]"
  let ?c0 = "JObj [(''choices'', JList [JObj [(''delta'', JObj [(''content'', JStr ''Hi'')])]])]"
  have cr: "carries_role ?r0"
    by (simp add: carries_role_def chunk_parts_def choice_and_delta_def block_field_def)
  have nc: "filter carries_role [?c0] = []"
    by (simp add: carries_role_def chunk_parts_def choice_and_delta_def block_field_def)
  have e: "transform_openai_stream_to_anthropic loads_sample [] = []"
    by (simp add: transform_openai_stream_to_anthropic_def)
  have split: "[?r0, ?c0] = [] @ ?r0 # [?c0]" by simp
  from C2_message_start [of loads_sample "[?r0, ?c0]"]
  have "\<forall>pre c post. [?r0, ?c0] = pre @ c # post \<and> carries_role c \<longrightarrow>
      (\<exists>m tail. transform_openai_stream_to_anthropic loads_sample [?r0, ?c0] =
                   transform_openai_stream_to_anthropic loads_sample pre @ MessageStart m # tail \<and>
                 length (filter is_message_start tail) = length (filter carries_role post))"
    by (rule conjunct2)
  from this [rule_format, of "[]" ?r0 "[?c0]", OF conjI [OF split cr]]
  have "\<exists>m tail. transform_openai_stream_to_anthropic loads_sample [?r0, ?c0] =
                   MessageStart m # tail \<and> filter is_message_start tail = []"
    unfolding e nc by simp
  with cr show ?thesis by (rule conjI)
qed

text \<open>
  Two chunks with a role give two \<open>MessageStart\<close>, and a content chunk before the
  role gives its block events before the \<open>MessageStart\<close>.
\<close>

theorem C2_message_start_counterexample:
  "map event_type
     (transform_openai_stream_to_anthropic loads_sample
        [JObj [(''choices'', JList [JObj [(''delta'', JObj [(''role'', JStr ''assistant'')])]])],
         JObj [(''choices'', JList [JObj [(''delta'', JObj [(''role'', JStr ''assistant'')])]])]]) =
     [''message_start'', ''message_start''] \<and>
   map event_type
     (transform_openai_stream_to_anthropic loads_sample
        [JObj [(''choices'', JList [JObj [(''delta'', JObj [(''content'', JStr ''Hi'')])]])],
         JObj [(''choices'', JList [JObj [(''delta'', JObj [(''role'', JStr ''assistant'')])]])]]) =
     [''content_block_start'', ''content_block_delta'', ''message_start'']"
  by (simp add: transform_openai_stream_to_anthropic_def process_event_def choice_and_delta_def
      role_phase_def content_phase_def tool_phase_def finish_phase_def then_phase_def
      append_block_def add_text_def initial_state_def Let_def)




end
